theory Spec2Isabelle
  imports Complex_Main
begin

section \<open>The asynchronous process manager of GitResultsManager.py\<close>

text \<open>
  A shallow embedding of the asyncproc part of \<^verbatim>\<open>src/GitResultsManager.py\<close>:
  \<^verbatim>\<open>with_timeout\<close> (lines 384-437), class \<^verbatim>\<open>Process\<close> (441-678) and class
  \<^verbatim>\<open>ProcessManager\<close> (681-754). The Python methods are state transformers on the
  fields of the object; the operating system (clock, alarm timer, SIGALRM disposition,
  the child process) is an explicit, deterministic environment with time in whole
  seconds, the granularity of \<^verbatim>\<open>signal.alarm\<close>.
\<close>

subsection \<open>Exceptions and outcomes\<close>

text \<open>
  \<open>Timeout n\<close> is \<^verbatim>\<open>Timeout("Function call took too long", func, n)\<close>;
  \<open>SigAlarm k\<close> is the class \<^verbatim>\<open>SigAlarm\<close> local to the \<open>k\<close>-th activation of
  \<^verbatim>\<open>with_timeout\<close>; \<open>OSError e\<close> carries the errno; \<open>ValueError\<close> is what
  \<^verbatim>\<open>write\<close> raises on a process without a stdin pipe; \<open>KeyError k\<close> is the failed
  dictionary lookup of key \<open>k\<close>; \<open>IndexError\<close> is \<^verbatim>\<open>pop\<close> from an empty list.
\<close>

datatype exn = Timeout nat | SigAlarm nat | OSError int | ValueError | KeyError int | IndexError

text \<open>
  A call returns a value, raises, or the whole interpreter is killed by a signal with
  default disposition (\<open>Dead\<close>: no \<^verbatim>\<open>finally\<close> block runs). A call that never
  returns is \<open>None\<close> at the level of the state transformers below.
\<close>

datatype 'a res = Ret 'a | Exc exn | Dead

definition SIGKILL :: int where "SIGKILL = 9"
definition SIGTERM :: int where "SIGTERM = 15"
definition ESRCH :: int where "ESRCH = 3"
definition ECHILD :: int where "ECHILD = 10"
definition EINVAL :: int where "EINVAL = 22"
definition WNOHANG :: int where "WNOHANG = 1"

definition WIFEXITED :: "int \<Rightarrow> bool" where
  "WIFEXITED st = (st mod 128 = 0)"

definition WIFSIGNALED :: "int \<Rightarrow> bool" where
  "WIFSIGNALED st = (st mod 128 \<noteq> 0 \<and> st mod 128 \<noteq> 127)"

subsection \<open>The environment: clock, alarm timer, child process\<close>

datatype handler = SIG_DFL | SIG_IGN | Handler exn

datatype oscall = Waitpid int int "nat option" | Kill int int

text \<open>
  \<open>alarm\<close> is the absolute expiry time of the one process-wide alarm; \<open>sigalrm\<close> the
  installed SIGALRM disposition (\<open>Handler e\<close>: a Python handler that raises \<open>e\<close>);
  \<open>classes\<close> counts the \<^verbatim>\<open>SigAlarm\<close> classes created so far; \<open>oslog\<close> records the
  \<^verbatim>\<open>os.waitpid\<close> and \<^verbatim>\<open>os.kill\<close> calls made on child processes (pid and
  flags, pid and signal), each with the time of the call, a \<open>Waitpid\<close> also with the
  alarm pending when it started.
\<close>

record world =
  clock :: nat
  alarm :: "nat option"
  sigalrm :: handler
  classes :: nat
  oslog :: "(nat \<times> oscall) list"

text \<open>
  What the spawned program does is a parameter: how long after end-of-input on its
  stdin it exits (\<open>on_eof\<close>), and how it reacts to the signals it handles
  (\<open>on_signal\<close>); a reaction carries the delay in seconds and the raw wait status.
  \<open>exit_at\<close> is the time and status at which the program terminates given the
  stimuli so far, \<open>reaped\<close> whether \<^verbatim>\<open>waitpid\<close> has collected it. Stopped and
  continued children (job control) are not modelled. \<open>eof_delay\<close> is how long after
  the program's exit its output pipes reach end of file: 0 seconds for a program that
  has not forked, more when a descendant keeps the write ends open, \<open>None\<close> when one
  never closes them.
\<close>

datatype reaction = Ignores | Exits_after nat int

record child =
  cpid :: int
  exit_at :: "(nat \<times> int) option"
  reaped :: bool
  on_eof :: reaction
  on_signal :: "(int \<times> reaction) list"
  stdin_closed :: bool
  stdin_data :: "string list"
  stdout_pipe :: "string list option"
  stderr_pipe :: "string list option"
  eof_delay :: "nat option"

definition has_exited :: "nat \<Rightarrow> child \<Rightarrow> bool" where
  "has_exited t c = (case exit_at c of None \<Rightarrow> False | Some (te, st) \<Rightarrow> te \<le> t)"

text \<open>The time at which the output pipes reach end of file, once the program has an exit time.\<close>

definition eof_time :: "child \<Rightarrow> nat option" where
  "eof_time c =
     (case exit_at c of
        None \<Rightarrow> None
      | Some (te, st) \<Rightarrow> (case eof_delay c of None \<Rightarrow> None | Some d \<Rightarrow> Some (te + d)))"

definition react :: "reaction \<Rightarrow> nat \<Rightarrow> child \<Rightarrow> child" where
  "react r t c =
     (case r of
        Ignores \<Rightarrow> c
      | Exits_after d st \<Rightarrow>
          (case exit_at c of
             None \<Rightarrow> c\<lparr>exit_at := Some (t + d, st)\<rparr>
           | Some (te, st') \<Rightarrow> if te \<le> t + d then c else c\<lparr>exit_at := Some (t + d, st)\<rparr>))"

text \<open>
  Delivery of a signal to the child at time \<open>t\<close>: the null signal and a signal to a
  process that has already exited do nothing; SIGKILL cannot be handled; a signal
  without a handler terminates the program at once with the signal as wait status.
\<close>

definition signal_child :: "int \<Rightarrow> nat \<Rightarrow> child \<Rightarrow> child" where
  "signal_child sig t c =
     (if sig = 0 \<or> has_exited t c then c
      else if sig = SIGKILL then react (Exits_after 0 SIGKILL) t c
      else (case map_of (on_signal c) sig of
              Some r \<Rightarrow> react r t c
            | None \<Rightarrow> react (Exits_after 0 sig) t c))"

subsection \<open>The Process object\<close>

text \<open>
  The fields set by \<^verbatim>\<open>Process.__init__\<close> (lines 465-503). \<open>has_stdin\<close>,
  \<open>has_stdout\<close>, \<open>has_stderr\<close> say whether \<^verbatim>\<open>self._process.stdin\<close> (stdout,
  stderr) is a pipe; \<open>inputsem\<close> is the counter of the semaphore
  \<^verbatim>\<open>self._inputsem\<close>; \<open>feeder_alive\<close> whether the stdin thread is still in its
  loop; \<open>child\<close> the operating-system side of \<^verbatim>\<open>self._process\<close>.
\<close>

record proc =
  has_stdin :: bool
  has_stdout :: bool
  has_stderr :: bool
  pending_input :: "string list"
  collected_outdata :: "string list"
  collected_errdata :: "string list"
  exitstatus :: "int option"
  inputsem :: nat
  quit :: bool
  feeder_alive :: bool
  child :: child

definition Process_init :: "bool \<Rightarrow> bool \<Rightarrow> bool \<Rightarrow> child \<Rightarrow> proc" where
  "Process_init stdin_pipe stdout_pipe_on stderr_pipe_on c =
     \<lparr>has_stdin = stdin_pipe, has_stdout = stdout_pipe_on, has_stderr = stderr_pipe_on,
      pending_input = [], collected_outdata = [], collected_errdata = [],
      exitstatus = None, inputsem = 0, quit = False, feeder_alive = stdin_pipe,
      child = c\<rparr>"

text \<open>
  \<^verbatim>\<open>_reader\<close> (lines 595-606): the list is what successive \<^verbatim>\<open>os.read\<close> calls
  return before end of file; the empty string read at end of file is appended too.
\<close>

fun reader :: "string list \<Rightarrow> string list \<Rightarrow> string list" where
  "reader collector [] = collector @ ['''']"
| "reader collector (data # rest) =
     (if data = '''' then collector @ [data] else reader (collector @ [data]) rest)"

text \<open>\<^verbatim>\<open>read\<close>, \<^verbatim>\<open>readerr\<close>, \<^verbatim>\<open>readboth\<close> (lines 622-653).\<close>

definition read :: "proc \<Rightarrow> string \<times> proc" where
  "read p = (let outdata = concat (collected_outdata p)
             in (outdata, p\<lparr>collected_outdata := []\<rparr>))"

definition readerr :: "proc \<Rightarrow> string \<times> proc" where
  "readerr p = (let errdata = concat (collected_errdata p)
                in (errdata, p\<lparr>collected_errdata := []\<rparr>))"

definition readboth :: "proc \<Rightarrow> (string \<times> string) \<times> proc" where
  "readboth p =
     (let outdata = concat (collected_outdata p);
          p1 = p\<lparr>collected_outdata := []\<rparr>;
          errdata = concat (collected_errdata p1);
          p2 = p1\<lparr>collected_errdata := []\<rparr>
      in ((outdata, errdata), p2))"

text \<open>
  \<^verbatim>\<open>write\<close> (lines 662-670; named \<open>write_proc\<close> here, \<open>write\<close> being a
  keyword of Isabelle) and \<^verbatim>\<open>closeinput\<close> (lines 672-678).
\<close>

definition write_proc :: "string \<Rightarrow> proc \<Rightarrow> exn + proc" where
  "write_proc data p =
     (if \<not> has_stdin p then Inl ValueError
      else Inr (p\<lparr>pending_input := pending_input p @ [data], inputsem := inputsem p + 1\<rparr>))"

definition closeinput :: "proc \<Rightarrow> proc" where
  "closeinput p = p\<lparr>quit := True, inputsem := inputsem p + 1\<rparr>"

text \<open>
  \<^verbatim>\<open>_feeder\<close> (lines 608-620), run for at most \<open>n\<close> passes of its loop: each pass
  takes one permit of the semaphore, so \<open>inputsem\<close> passes bring the thread to the
  point where it blocks or ends. Closing the drain gives the child end-of-input; a
  \<^verbatim>\<open>pop\<close> from the empty list and a write to a child that has exited end the
  thread with an exception.
\<close>

definition drain_close :: "proc \<times> world \<Rightarrow> proc \<times> world" where
  "drain_close s =
     (let (p, w) = s; c = child p
      in (p\<lparr>child := react (on_eof c) (clock w) (c\<lparr>stdin_closed := True\<rparr>)\<rparr>, w))"

fun feeder :: "nat \<Rightarrow> proc \<times> world \<Rightarrow> proc \<times> world" where
  "feeder 0 s = s"
| "feeder (Suc n) (p, w) =
     (if \<not> feeder_alive p \<or> inputsem p = 0 then (p, w)
      else let p1 = p\<lparr>inputsem := inputsem p - 1\<rparr> in
        if pending_input p1 = [] \<and> quit p1
        then drain_close (p1\<lparr>feeder_alive := False\<rparr>, w)
        else (case pending_input p1 of
                [] \<Rightarrow> (p1\<lparr>feeder_alive := False\<rparr>, w)
              | data # rest \<Rightarrow>
                  let p2 = p1\<lparr>pending_input := rest\<rparr>; c = child p2 in
                  if has_exited (clock w) c then (p2\<lparr>feeder_alive := False\<rparr>, w)
                  else feeder n (p2\<lparr>child := c\<lparr>stdin_data := stdin_data c @ [data]\<rparr>\<rparr>, w)))"

text \<open>
  The scheduling assumption: whenever the main thread enters \<^verbatim>\<open>os.waitpid\<close>, the
  feeder thread has done all the work its semaphore allows. There is a feeder thread
  only for a process with a stdin pipe (lines 483-489).
\<close>

definition background :: "proc \<times> world \<Rightarrow> proc \<times> world" where
  "background s = (if has_stdin (fst s) then feeder (inputsem (fst s)) s else s)"

text \<open>
  A reader thread (lines 595-606) ends when its pipe reaches end of file; it has then
  appended to its buffer what was left in the pipe. \<open>None\<close> is a pipe whose reader
  has ended.
\<close>

definition stdout_thread_done :: "proc \<Rightarrow> proc" where
  "stdout_thread_done p =
     (case stdout_pipe (child p) of
        None \<Rightarrow> p
      | Some chunks \<Rightarrow> p\<lparr>collected_outdata := reader (collected_outdata p) chunks,
                        child := (child p)\<lparr>stdout_pipe := None\<rparr>\<rparr>)"

definition stderr_thread_done :: "proc \<Rightarrow> proc" where
  "stderr_thread_done p =
     (case stderr_pipe (child p) of
        None \<Rightarrow> p
      | Some chunks \<Rightarrow> p\<lparr>collected_errdata := reader (collected_errdata p) chunks,
                        child := (child p)\<lparr>stderr_pipe := None\<rparr>\<rparr>)"

subsection \<open>System calls\<close>

text \<open>
  A blocking call that would complete at absolute time \<open>te\<close> with value \<open>v\<close>
  (\<open>None\<close>: never). It completes if that is before the pending alarm expires;
  otherwise SIGALRM is delivered at the expiry: a Python handler raises out of the
  call, the default disposition kills the interpreter, an ignored signal lets the call
  go on.
\<close>

definition blocking :: "(nat \<times> 'a) option \<Rightarrow> world \<Rightarrow> ('a res \<times> world) option" where
  "blocking completion w =
     (case alarm w of
        None \<Rightarrow>
          (case completion of
             None \<Rightarrow> None
           | Some (te, v) \<Rightarrow> Some (Ret v, w\<lparr>clock := max (clock w) te\<rparr>))
      | Some a \<Rightarrow>
          (if (case completion of None \<Rightarrow> False | Some (te, v) \<Rightarrow> te < a)
           then (case completion of
                   None \<Rightarrow> None
                 | Some (te, v) \<Rightarrow> Some (Ret v, w\<lparr>clock := max (clock w) te\<rparr>))
           else (let w1 = w\<lparr>clock := max (clock w) a, alarm := None\<rparr> in
                 case sigalrm w of
                   Handler e \<Rightarrow> Some (Exc e, w1)
                 | SIG_DFL \<Rightarrow> Some (Dead, w1)
                 | SIG_IGN \<Rightarrow>
                     (case completion of
                        None \<Rightarrow> None
                      | Some (te, v) \<Rightarrow> Some (Ret v, w1\<lparr>clock := max (clock w1) te\<rparr>)))))"

text \<open>
  \<^verbatim>\<open>Thread.join()\<close> on a thread that ends at absolute time \<open>te\<close> (\<open>None\<close>: never).
  The source is Python 2 (\<^verbatim>\<open>print\<close> statements), where a join without timeout waits
  on a lock and, unlike a system call, is not interrupted by a signal: a Python handler
  of SIGALRM runs only when the join has returned, so that its exception is raised
  then, however long after the expiry. The default disposition kills the interpreter
  at the expiry of the alarm.
\<close>

definition thread_join :: "nat option \<Rightarrow> world \<Rightarrow> (unit res \<times> world) option" where
  "thread_join ended w =
     (case alarm w of
        None \<Rightarrow>
          (case ended of
             None \<Rightarrow> None
           | Some te \<Rightarrow> Some (Ret (), w\<lparr>clock := max (clock w) te\<rparr>))
      | Some a \<Rightarrow>
          (if (case ended of None \<Rightarrow> False | Some te \<Rightarrow> te < a)
           then (case ended of
                   None \<Rightarrow> None
                 | Some te \<Rightarrow> Some (Ret (), w\<lparr>clock := max (clock w) te\<rparr>))
           else (case sigalrm w of
                   SIG_DFL \<Rightarrow> Some (Dead, w\<lparr>clock := max (clock w) a, alarm := None\<rparr>)
                 | SIG_IGN \<Rightarrow>
                     (case ended of
                        None \<Rightarrow> None
                      | Some te \<Rightarrow> Some (Ret (), w\<lparr>clock := max (clock w) te, alarm := None\<rparr>))
                 | Handler e \<Rightarrow>
                     (case ended of
                        None \<Rightarrow> None
                      | Some te \<Rightarrow> Some (Exc e, w\<lparr>clock := max (clock w) te, alarm := None\<rparr>)))))"

text \<open>
  Joining a reader thread (lines 558-561): the join returns at once if the thread has
  ended, and otherwise when the pipe reaches end of file, which is the child's exit
  only if the child has not forked (the assumption of the comment at lines 547-550);
  until then the caller is blocked. What the thread has read is accounted for in the
  buffer when the thread is joined.
\<close>

definition join_stdout :: "proc \<times> world \<Rightarrow> (unit res \<times> proc \<times> world) option" where
  "join_stdout s =
     (let (p, w) = s in
      case stdout_pipe (child p) of
        None \<Rightarrow> Some (Ret (), p, w)
      | Some chunks \<Rightarrow>
          (case thread_join (eof_time (child p)) w of
             None \<Rightarrow> None
           | Some (r, w1) \<Rightarrow> Some (r, stdout_thread_done p, w1)))"

definition join_stderr :: "proc \<times> world \<Rightarrow> (unit res \<times> proc \<times> world) option" where
  "join_stderr s =
     (let (p, w) = s in
      case stderr_pipe (child p) of
        None \<Rightarrow> Some (Ret (), p, w)
      | Some chunks \<Rightarrow>
          (case thread_join (eof_time (child p)) w of
             None \<Rightarrow> None
           | Some (r, w1) \<Rightarrow> Some (r, stderr_thread_done p, w1)))"

text \<open>
  \<^verbatim>\<open>os.waitpid(self.pid(), flags)\<close>: bit 0 of the flags is WNOHANG; other flags are
  not interpreted. A child that was already collected gives ECHILD.
\<close>

definition os_waitpid :: "int \<Rightarrow> proc \<times> world \<Rightarrow> ((int \<times> int) res \<times> proc \<times> world) option" where
  "os_waitpid flags s =
     (let (p, w0) = background s; c = child p;
          w = w0\<lparr>oslog := oslog w0 @ [(clock w0, Waitpid (cpid c) flags (alarm w0))]\<rparr>
      in if reaped c then Some (Exc (OSError ECHILD), (p, w))
         else if bit flags 0 then
           (case exit_at c of
              None \<Rightarrow> Some (Ret (0, 0), (p, w))
            | Some (te, st) \<Rightarrow>
                if te \<le> clock w then Some (Ret (cpid c, st), (p\<lparr>child := c\<lparr>reaped := True\<rparr>\<rparr>, w))
                else Some (Ret (0, 0), (p, w)))
         else
           (case blocking (map_option (\<lambda>(te, st). (te, (cpid c, st))) (exit_at c)) w of
              None \<Rightarrow> None
            | Some (Ret v, w1) \<Rightarrow> Some (Ret v, (p\<lparr>child := c\<lparr>reaped := True\<rparr>\<rparr>, w1))
            | Some (Exc e, w1) \<Rightarrow> Some (Exc e, (p, w1))
            | Some (Dead, w1) \<Rightarrow> Some (Dead, (p, w1))))"

text \<open>\<^verbatim>\<open>os.kill(self.pid(), signal)\<close>.\<close>

definition os_kill :: "int \<Rightarrow> proc \<times> world \<Rightarrow> unit res \<times> proc \<times> world" where
  "os_kill sig s =
     (let (p, w) = s; c = child p
      in if sig < 0 \<or> 64 < sig then (Exc (OSError EINVAL), s)
         else if reaped c then (Exc (OSError ESRCH), s)
         else (Ret (), (p\<lparr>child := signal_child sig (clock w) c\<rparr>,
                        w\<lparr>oslog := oslog w @ [(clock w, Kill (cpid c) sig)]\<rparr>)))"

text \<open>
  \<^verbatim>\<open>signal.alarm(n)\<close> returns the seconds left of the previous alarm (0 if none)
  and arms the timer, \<open>n = 0\<close> disarming it; \<^verbatim>\<open>signal.signal(SIGALRM, h)\<close> returns
  the previous disposition; \<^verbatim>\<open>os.kill(os.getpid(), SIGALRM)\<close> runs the installed
  disposition at once.
\<close>

definition signal_alarm :: "nat \<Rightarrow> world \<Rightarrow> nat \<times> world" where
  "signal_alarm n w =
     ((case alarm w of None \<Rightarrow> 0 | Some a \<Rightarrow> a - clock w),
      w\<lparr>alarm := (if n = 0 then None else Some (clock w + n))\<rparr>)"

definition signal_signal :: "handler \<Rightarrow> world \<Rightarrow> handler \<times> world" where
  "signal_signal h w = (sigalrm w, w\<lparr>sigalrm := h\<rparr>)"

definition raise_SIGALRM :: "world \<Rightarrow> unit res \<times> world" where
  "raise_SIGALRM w =
     (case sigalrm w of
        SIG_IGN \<Rightarrow> (Ret (), w)
      | SIG_DFL \<Rightarrow> (Dead, w)
      | Handler e \<Rightarrow> (Exc e, w))"

text \<open>Python's \<^verbatim>\<open>int()\<close> of a float truncates towards zero.\<close>

definition py_int :: "rat \<Rightarrow> int" where
  "py_int x = (if x < 0 then \<lceil>x\<rceil> else \<lfloor>x\<rfloor>)"

subsection \<open>The Deadline Guard\<close>

text \<open>
  \<^verbatim>\<open>with_timeout\<close> (lines 384-437) in three parts: the statements before the call
  of \<^verbatim>\<open>func\<close> (lines 408-421), which yield the class number \<open>k\<close>, \<open>oldalarm\<close>,
  \<open>oldhandler\<close> and \<open>t0\<close>; the \<^verbatim>\<open>finally\<close> block (lines 425-435), which may
  replace the outcome by what the old handler raises; and the whole.
\<close>

definition with_timeout_enter :: "nat \<Rightarrow> world \<Rightarrow> (nat \<times> nat \<times> handler \<times> nat) \<times> world" where
  "with_timeout_enter timeout w =
     (let k = classes w;
          w1 = w\<lparr>classes := k + 1\<rparr>;
          (oldalarm, w2) = signal_alarm 0 w1;
          (oldhandler, w3) = signal_signal (Handler (SigAlarm k)) w2;
          t0 = clock w3;
          (u, w4) = signal_alarm timeout w3
      in ((k, oldalarm, oldhandler, t0), w4))"

definition with_timeout_finally ::
    "nat \<times> nat \<times> handler \<times> nat \<Rightarrow> 'a res \<Rightarrow> 's \<times> world \<Rightarrow> 'a res \<times> 's \<times> world" where
  "with_timeout_finally g r s =
     (let (k, oldalarm, oldhandler, t0) = g;
          (st, w) = s;
          (u, w1) = signal_alarm 0 w;
          (h, w2) = signal_signal oldhandler w1
      in if oldalarm \<noteq> 0 then
           (let t1 = clock w2;
                remaining = int oldalarm - py_int (of_nat t1 - of_nat t0 + 1 / 2)
            in if remaining \<le> 0 then
                 (case raise_SIGALRM w2 of
                    (Ret u, w3) \<Rightarrow> (r, st, w3)
                  | (Exc e, w3) \<Rightarrow> (Exc e, st, w3)
                  | (Dead, w3) \<Rightarrow> (Dead, st, w3))
               else (r, st, snd (signal_alarm (nat remaining) w2)))
         else (r, st, w2))"

definition with_timeout ::
    "nat \<Rightarrow> ('s \<times> world \<Rightarrow> ('a res \<times> 's \<times> world) option) \<Rightarrow> 's \<times> world \<Rightarrow>
     ('a res \<times> 's \<times> world) option" where
  "with_timeout timeout func s =
     (let (g, w) = with_timeout_enter timeout (snd s); k = fst g
      in case func (fst s, w) of
           None \<Rightarrow> None
         | Some (Ret v, s1) \<Rightarrow> Some (with_timeout_finally g (Ret v) s1)
         | Some (Exc e, s1) \<Rightarrow>
             Some (with_timeout_finally g (if e = SigAlarm k then Exc (Timeout timeout) else Exc e) s1)
         | Some (Dead, s1) \<Rightarrow> Some (Dead, s1))"

text \<open>
  An operation to run under the guard: it blocks for \<open>d\<close> seconds (\<open>None\<close>: for
  ever) and then has the outcome \<open>r\<close>, as \<^verbatim>\<open>time.sleep\<close> does.
\<close>

definition lasting :: "nat option \<Rightarrow> 'a res \<Rightarrow> 's \<times> world \<Rightarrow> ('a res \<times> 's \<times> world) option" where
  "lasting d r s =
     (let (st, w) = s in
      case blocking (map_option (\<lambda>n. (clock w + n, ())) d) w of
        None \<Rightarrow> None
      | Some (Ret u, w1) \<Rightarrow> Some (r, st, w1)
      | Some (Exc e, w1) \<Rightarrow> Some (Exc e, st, w1)
      | Some (Dead, w1) \<Rightarrow> Some (Dead, st, w1))"

subsection \<open>Process.kill, Process.wait, Process.terminate\<close>

text \<open>\<^verbatim>\<open>kill\<close> (lines 517-526).\<close>

definition kill :: "int \<Rightarrow> proc \<times> world \<Rightarrow> unit res \<times> proc \<times> world" where
  "kill sig s =
     (if exitstatus (fst s) \<noteq> None then (Exc (OSError ECHILD), s)
      else os_kill sig s)"

text \<open>
  \<^verbatim>\<open>wait\<close> (lines 528-562); the result \<open>None\<close> is Python's \<^verbatim>\<open>None\<close>. The
  statements that follow a termination status (lines 546-562) are \<open>wait_finish\<close>:
  the status is cached first, then the input is closed, then the reader threads are
  joined, and an exception raised at a join leaves the status cached.
\<close>

definition wait_finish :: "int \<Rightarrow> proc \<times> world \<Rightarrow> (int option res \<times> proc \<times> world) option" where
  "wait_finish st s =
     (let (p, w) = s;
          p1 = p\<lparr>exitstatus := Some st\<rparr>;
          p2 = (if has_stdin p1 then closeinput p1 else p1)
      in case (if has_stdout p2 then join_stdout (p2, w) else Some (Ret (), p2, w)) of
           None \<Rightarrow> None
         | Some (Exc e, s3) \<Rightarrow> Some (Exc e, s3)
         | Some (Dead, s3) \<Rightarrow> Some (Dead, s3)
         | Some (Ret u, s3) \<Rightarrow>
             (case (if has_stderr (fst s3) then join_stderr s3 else Some (Ret (), s3)) of
                None \<Rightarrow> None
              | Some (Exc e, s4) \<Rightarrow> Some (Exc e, s4)
              | Some (Dead, s4) \<Rightarrow> Some (Dead, s4)
              | Some (Ret u, s4) \<Rightarrow> Some (Ret (Some st), s4)))"

definition wait :: "int \<Rightarrow> proc \<times> world \<Rightarrow> (int option res \<times> proc \<times> world) option" where
  "wait flags s =
     (case exitstatus (fst s) of
        Some st \<Rightarrow> Some (Ret (Some st), s)
      | None \<Rightarrow>
          (case os_waitpid flags s of
             None \<Rightarrow> None
           | Some (Exc e, s1) \<Rightarrow> Some (Exc e, s1)
           | Some (Dead, s1) \<Rightarrow> Some (Dead, s1)
           | Some (Ret (rpid, st), (p, w)) \<Rightarrow>
               if rpid = 0 then Some (Ret None, (p, w))
               else if WIFEXITED st \<or> WIFSIGNALED st then wait_finish st (p, w)
               else Some (Ret (Some st), (p, w))))"

text \<open>
  \<^verbatim>\<open>terminate\<close> (lines 564-593), from its last stage to its first:
  lines 592-593, lines 586-590, lines 578-584.
\<close>

definition is_Timeout :: "'a res \<Rightarrow> bool" where
  "is_Timeout r = (case r of Exc (Timeout n) \<Rightarrow> True | _ \<Rightarrow> False)"

definition terminate_sigkill :: "proc \<times> world \<Rightarrow> (int option res \<times> proc \<times> world) option" where
  "terminate_sigkill s =
     (case kill SIGKILL s of
        (Ret u, s1) \<Rightarrow> wait 0 s1
      | (Exc e, s1) \<Rightarrow> Some (Exc e, s1)
      | (Dead, s1) \<Rightarrow> Some (Dead, s1))"

definition terminate_sigterm :: "nat \<Rightarrow> proc \<times> world \<Rightarrow> (int option res \<times> proc \<times> world) option" where
  "terminate_sigterm graceperiod s =
     (case kill SIGTERM s of
        (Ret u, s1) \<Rightarrow>
          (case with_timeout graceperiod (wait 0) s1 of
             None \<Rightarrow> None
           | Some (r, s2) \<Rightarrow> if is_Timeout r then terminate_sigkill s2 else Some (r, s2))
      | (Exc e, s1) \<Rightarrow> Some (Exc e, s1)
      | (Dead, s1) \<Rightarrow> Some (Dead, s1))"

definition terminate :: "nat \<Rightarrow> proc \<times> world \<Rightarrow> (int option res \<times> proc \<times> world) option" where
  "terminate graceperiod s =
     (if has_stdin (fst s) then
        (case with_timeout graceperiod (wait 0) (closeinput (fst s), snd s) of
           None \<Rightarrow> None
         | Some (r, s2) \<Rightarrow> if is_Timeout r then terminate_sigterm graceperiod s2 else Some (r, s2))
      else terminate_sigterm graceperiod s)"

subsection \<open>Method calls as data\<close>

text \<open>
  A call of one of the public methods of \<^verbatim>\<open>Process\<close>, and the Python value it
  returns: \<open>V_none\<close> is \<^verbatim>\<open>None\<close>, \<open>V_pair\<close> the tuple of \<^verbatim>\<open>readboth\<close>.
\<close>

datatype proc_call =
    C_kill int | C_wait int | C_terminate nat | C_read | C_readerr | C_readboth
  | C_write string | C_closeinput

datatype pyval = V_none | V_int int | V_str string | V_pair string string

definition status_val :: "int option \<Rightarrow> pyval" where
  "status_val v = (case v of None \<Rightarrow> V_none | Some st \<Rightarrow> V_int st)"

fun call :: "proc_call \<Rightarrow> proc \<times> world \<Rightarrow> (pyval res \<times> proc \<times> world) option" where
  "call (C_kill sig) s = (case kill sig s of (r, s1) \<Rightarrow> Some (map_res (\<lambda>u. V_none) r, s1))"
| "call (C_wait flags) s =
     (case wait flags s of None \<Rightarrow> None | Some (r, s1) \<Rightarrow> Some (map_res status_val r, s1))"
| "call (C_terminate graceperiod) s =
     (case terminate graceperiod s of
        None \<Rightarrow> None
      | Some (r, s1) \<Rightarrow> Some (map_res status_val r, s1))"
| "call C_read (p, w) = (case read p of (outdata, p1) \<Rightarrow> Some (Ret (V_str outdata), (p1, w)))"
| "call C_readerr (p, w) =
     (case readerr p of (errdata, p1) \<Rightarrow> Some (Ret (V_str errdata), (p1, w)))"
| "call C_readboth (p, w) =
     (case readboth p of
        ((outdata, errdata), p1) \<Rightarrow> Some (Ret (V_pair outdata errdata), (p1, w)))"
| "call (C_write data) (p, w) =
     (case write_proc data p of
        Inl e \<Rightarrow> Some (Exc e, (p, w))
      | Inr p1 \<Rightarrow> Some (Ret V_none, (p1, w)))"
| "call C_closeinput (p, w) = Some (Ret V_none, (closeinput p, w))"

subsection \<open>The Process Registry\<close>

text \<open>
  Class \<^verbatim>\<open>ProcessManager\<close> (lines 681-745): \<open>last_id\<close> is \<^verbatim>\<open>__last_id\<close>, \<open>procs\<close>
  the dictionary \<^verbatim>\<open>__procs\<close>.
\<close>

record registry =
  last_id :: int
  procs :: "int \<rightharpoonup> proc"

definition ProcessManager_init :: registry where
  "ProcessManager_init = \<lparr>last_id = 0, procs = Map.empty\<rparr>"

text \<open>
  \<^verbatim>\<open>start\<close> (lines 694-704). The outcome of spawning the program is given by the
  environment: an exception of \<^verbatim>\<open>subprocess.Popen\<close>, or the new child. The keyword
  call of \<^verbatim>\<open>Process\<close> leaves the three streams at their default, a pipe each.
\<close>

definition pm_start :: "exn + child \<Rightarrow> registry \<times> world \<Rightarrow> int res \<times> registry \<times> world" where
  "pm_start spawned s =
     (case spawned of
        Inl e \<Rightarrow> (Exc e, s)
      | Inr c \<Rightarrow>
          (let (m, w) = s;
               proc = Process_init True True True c;
               m1 = m\<lparr>last_id := last_id m + 1\<rparr>;
               m2 = m1\<lparr>procs := (procs m1)(last_id m1 \<mapsto> proc)\<rparr>
           in (Ret (last_id m2), (m2, w))))"

text \<open>
  The forwarding methods (lines 706-734) all have the shape
  \<^verbatim>\<open>return self.__procs[procid].method(...)\<close>: the lookup raises KeyError for a key
  that is not in the dictionary; the object found is changed in place.
\<close>

definition pm_forward ::
    "int \<Rightarrow> proc_call \<Rightarrow> registry \<times> world \<Rightarrow> (pyval res \<times> registry \<times> world) option" where
  "pm_forward procid c s =
     (let (m, w) = s in
      case procs m procid of
        None \<Rightarrow> Some (Exc (KeyError procid), s)
      | Some p \<Rightarrow>
          (case call c (p, w) of
             None \<Rightarrow> None
           | Some (r, (p1, w1)) \<Rightarrow> Some (r, (m\<lparr>procs := (procs m)(procid \<mapsto> p1)\<rparr>, w1))))"

definition pm_kill :: "int \<Rightarrow> int \<Rightarrow> registry \<times> world \<Rightarrow> (pyval res \<times> registry \<times> world) option" where
  "pm_kill procid sig = pm_forward procid (C_kill sig)"

definition pm_terminate :: "int \<Rightarrow> nat \<Rightarrow> registry \<times> world \<Rightarrow> (pyval res \<times> registry \<times> world) option" where
  "pm_terminate procid graceperiod = pm_forward procid (C_terminate graceperiod)"

definition pm_write :: "int \<Rightarrow> string \<Rightarrow> registry \<times> world \<Rightarrow> (pyval res \<times> registry \<times> world) option" where
  "pm_write procid data = pm_forward procid (C_write data)"

definition pm_closeinput :: "int \<Rightarrow> registry \<times> world \<Rightarrow> (pyval res \<times> registry \<times> world) option" where
  "pm_closeinput procid = pm_forward procid C_closeinput"

definition pm_read :: "int \<Rightarrow> registry \<times> world \<Rightarrow> (pyval res \<times> registry \<times> world) option" where
  "pm_read procid = pm_forward procid C_read"

definition pm_readerr :: "int \<Rightarrow> registry \<times> world \<Rightarrow> (pyval res \<times> registry \<times> world) option" where
  "pm_readerr procid = pm_forward procid C_readerr"

definition pm_readboth :: "int \<Rightarrow> registry \<times> world \<Rightarrow> (pyval res \<times> registry \<times> world) option" where
  "pm_readboth procid = pm_forward procid C_readboth"

definition pm_wait :: "int \<Rightarrow> int \<Rightarrow> registry \<times> world \<Rightarrow> (pyval res \<times> registry \<times> world) option" where
  "pm_wait procid flags = pm_forward procid (C_wait flags)"

text \<open>\<^verbatim>\<open>reap\<close> (lines 736-745).\<close>

definition pm_reap :: "int \<Rightarrow> registry \<times> world \<Rightarrow> (pyval res \<times> registry \<times> world) option" where
  "pm_reap procid s =
     (case pm_wait procid WNOHANG s of
        None \<Rightarrow> None
      | Some (Exc e, s1) \<Rightarrow> Some (Exc e, s1)
      | Some (Dead, s1) \<Rightarrow> Some (Dead, s1)
      | Some (Ret v, s1) \<Rightarrow>
          (case (if v = V_none then pm_kill procid SIGKILL s1 else Some (Ret V_none, s1)) of
             None \<Rightarrow> None
           | Some (Exc e, s2) \<Rightarrow> Some (Exc e, s2)
           | Some (Dead, s2) \<Rightarrow> Some (Dead, s2)
           | Some (Ret u, s2) \<Rightarrow>
               (case pm_wait procid 0 s2 of
                  None \<Rightarrow> None
                | Some (Exc e, s3) \<Rightarrow> Some (Exc e, s3)
                | Some (Dead, s3) \<Rightarrow> Some (Dead, s3)
                | Some (Ret v2, (m, w)) \<Rightarrow>
                    (case procs m procid of
                       None \<Rightarrow> Some (Exc (KeyError procid), (m, w))
                     | Some p \<Rightarrow>
                         Some (Ret V_none, (m\<lparr>procs := (procs m)(procid := None)\<rparr>, w))))))"

text \<open>
  A client's calls on the registry, as data, and a run of a list of calls: the client
  catches the exceptions and goes on; the run ends when the interpreter is killed, and
  is \<open>None\<close> when a call never returns.
\<close>

datatype pm_request =
    Start "exn + child" | P_kill int int | P_terminate int nat | P_write int string
  | P_closeinput int | P_read int | P_readerr int | P_readboth int | P_wait int int
  | P_reap int

fun pm_call :: "pm_request \<Rightarrow> registry \<times> world \<Rightarrow> (pyval res \<times> registry \<times> world) option" where
  "pm_call (Start spawned) s = (case pm_start spawned s of (r, s1) \<Rightarrow> Some (map_res V_int r, s1))"
| "pm_call (P_kill procid sig) s = pm_kill procid sig s"
| "pm_call (P_terminate procid graceperiod) s = pm_terminate procid graceperiod s"
| "pm_call (P_write procid data) s = pm_write procid data s"
| "pm_call (P_closeinput procid) s = pm_closeinput procid s"
| "pm_call (P_read procid) s = pm_read procid s"
| "pm_call (P_readerr procid) s = pm_readerr procid s"
| "pm_call (P_readboth procid) s = pm_readboth procid s"
| "pm_call (P_wait procid flags) s = pm_wait procid flags s"
| "pm_call (P_reap procid) s = pm_reap procid s"

fun pm_run ::
    "pm_request list \<Rightarrow> registry \<times> world \<Rightarrow> ((pm_request \<times> pyval res) list \<times> registry \<times> world) option" where
  "pm_run [] s = Some ([], s)"
| "pm_run (c # cs) s =
     (case pm_call c s of
        None \<Rightarrow> None
      | Some (Dead, s1) \<Rightarrow> Some ([(c, Dead)], s1)
      | Some (r, s1) \<Rightarrow>
          (case pm_run cs s1 of
             None \<Rightarrow> None
           | Some (rs, s2) \<Rightarrow> Some ((c, r) # rs, s2)))"

text \<open>The ids that the \<^verbatim>\<open>start\<close> calls of a run returned, in order.\<close>

fun issued :: "(pm_request \<times> pyval res) list \<Rightarrow> int list" where
  "issued [] = []"
| "issued ((Start spawned, Ret (V_int i)) # rs) = i # issued rs"
| "issued (cr # rs) = issued rs"

text \<open>
  The child that the \<^verbatim>\<open>start\<close> call of a run which returned the id \<open>i\<close> had
  spawned, and the id that a call names.
\<close>

fun started :: "(pm_request \<times> pyval res) list \<Rightarrow> int \<Rightarrow> child option" where
  "started [] i = None"
| "started ((Start (Inr c), Ret (V_int j)) # rs) i = (if i = j then Some c else started rs i)"
| "started (cr # rs) i = started rs i"

fun target :: "pm_request \<Rightarrow> int option" where
  "target (Start spawned) = None"
| "target (P_kill procid sig) = Some procid"
| "target (P_terminate procid graceperiod) = Some procid"
| "target (P_write procid data) = Some procid"
| "target (P_closeinput procid) = Some procid"
| "target (P_read procid) = Some procid"
| "target (P_readerr procid) = Some procid"
| "target (P_readboth procid) = Some procid"
| "target (P_wait procid flags) = Some procid"
| "target (P_reap procid) = Some procid"

subsection \<open>Histories of the output buffers\<close>

text \<open>
  What happens to the two buffers: a reader thread appends a chunk (line 601), or the
  caller reads. \<open>out_since\<close> and \<open>err_since\<close> follow the specification's words:
  the chunks accumulated since the last call that emptied the buffer.
\<close>

datatype buf_event = Out_chunk string | Err_chunk string | Call_read | Call_readerr | Call_readboth

fun buf_step :: "buf_event \<Rightarrow> proc \<Rightarrow> proc" where
  "buf_step (Out_chunk data) p = p\<lparr>collected_outdata := collected_outdata p @ [data]\<rparr>"
| "buf_step (Err_chunk data) p = p\<lparr>collected_errdata := collected_errdata p @ [data]\<rparr>"
| "buf_step Call_read p = snd (read p)"
| "buf_step Call_readerr p = snd (readerr p)"
| "buf_step Call_readboth p = snd (readboth p)"

fun buf_run :: "buf_event list \<Rightarrow> proc \<Rightarrow> proc" where
  "buf_run [] p = p"
| "buf_run (e # es) p = buf_run es (buf_step e p)"

fun out_since :: "buf_event list \<Rightarrow> string list \<Rightarrow> string list" where
  "out_since [] acc = acc"
| "out_since (Out_chunk data # es) acc = out_since es (acc @ [data])"
| "out_since (Call_read # es) acc = out_since es []"
| "out_since (Call_readboth # es) acc = out_since es []"
| "out_since (e # es) acc = out_since es acc"

fun err_since :: "buf_event list \<Rightarrow> string list \<Rightarrow> string list" where
  "err_since [] acc = acc"
| "err_since (Err_chunk data # es) acc = err_since es (acc @ [data])"
| "err_since (Call_readerr # es) acc = err_since es []"
| "err_since (Call_readboth # es) acc = err_since es []"
| "err_since (e # es) acc = err_since es acc"

text \<open>Successive \<^verbatim>\<open>write\<close> calls, stopping at the first exception.\<close>

fun write_all :: "string list \<Rightarrow> proc \<Rightarrow> exn + proc" where
  "write_all [] p = Inr p"
| "write_all (data # rest) p =
     (case write_proc data p of Inl e \<Rightarrow> Inl e | Inr p1 \<Rightarrow> write_all rest p1)"

subsection \<open>Concrete inputs\<close>

text \<open>
  A world at time 100 with no alarm pending, and a program that ignores end-of-input
  and SIGTERM, has written two chunks to its stdout and has not forked.
\<close>

definition w_ex :: world where
  "w_ex = \<lparr>clock = 100, alarm = None, sigalrm = SIG_DFL, classes = 0, oslog = []\<rparr>"

definition c_ex :: child where
  "c_ex = \<lparr>cpid = 4242, exit_at = None, reaped = False, on_eof = Ignores,
           on_signal = [(15, Ignores)], stdin_closed = False, stdin_data = [],
           stdout_pipe = Some [''ab'', ''c''], stderr_pipe = Some [], eof_delay = Some 0\<rparr>"

definition p_ex :: proc where
  "p_ex = Process_init True True True c_ex"

text \<open>
  A caller's successive method calls on one process: the caller catches exceptions and
  goes on; the run ends when the interpreter is killed, and is \<open>None\<close> when a call
  never returns.
\<close>

fun calls :: "proc_call list \<Rightarrow> proc \<times> world \<Rightarrow> (pyval res list \<times> proc \<times> world) option" where
  "calls [] s = Some ([], s)"
| "calls (c # cs) s =
     (case call c s of
        None \<Rightarrow> None
      | Some (Dead, s1) \<Rightarrow> Some ([Dead], s1)
      | Some (r, s1) \<Rightarrow>
          (case calls cs s1 of
             None \<Rightarrow> None
           | Some (rs, s2) \<Rightarrow> Some (r # rs, s2)))"

text \<open>
  What the guard does around an operation that lasts \<open>d\<close> seconds and then has the
  outcome \<open>r\<close>, in closed form: the operation is in time if no deadline is armed
  (\<open>t = 0\<close>) or it ends before the deadline; the outer alarm \<open>a\<close>, if one was
  pending, is armed again when the guard is left before \<open>a\<close>, and its handler runs
  at once otherwise.
\<close>

definition guarded_outcome ::
    "nat \<Rightarrow> nat option \<Rightarrow> 'a res \<Rightarrow> 's \<Rightarrow> world \<Rightarrow> ('a res \<times> 's \<times> world) option" where
  "guarded_outcome t d r st w =
     (if t = 0 \<and> d = None then None
      else
        (let in_time = (case d of None \<Rightarrow> False | Some n \<Rightarrow> t = 0 \<or> n < t);
             t1 = clock w + (case d of None \<Rightarrow> t | Some n \<Rightarrow> if t = 0 then n else min n t);
             inner = (if in_time then r else Exc (Timeout t));
             w1 = w\<lparr>clock := t1, classes := classes w + 1\<rparr>
         in case alarm w of
              None \<Rightarrow> Some (inner, st, w1)
            | Some a \<Rightarrow>
                if t1 < a then Some (inner, st, w1\<lparr>alarm := Some a\<rparr>)
                else Some ((case sigalrm w of
                              SIG_IGN \<Rightarrow> inner
                            | SIG_DFL \<Rightarrow> Dead
                            | Handler e \<Rightarrow> Exc e), st, w1\<lparr>alarm := None\<rparr>)))"

text \<open>
  What \<^verbatim>\<open>wait\<close> has done to the object when it returns the status \<open>st\<close> that
  \<^verbatim>\<open>os.waitpid\<close> reported (lines 545-562), as a function of its own: it is used to
  state what \<^verbatim>\<open>terminate\<close> leaves behind.
\<close>

definition wait_done :: "int \<Rightarrow> proc \<Rightarrow> proc" where
  "wait_done st p =
     (if WIFEXITED st \<or> WIFSIGNALED st then
        (let p1 = p\<lparr>exitstatus := Some st\<rparr>;
             p2 = (if has_stdin p1 then closeinput p1 else p1);
             p3 = (if has_stdout p2 then stdout_thread_done p2 else p2);
             p4 = (if has_stderr p3 then stderr_thread_done p3 else p3)
         in p4)
      else p)"

text \<open>
  What a spawned program is for as long as it runs: its pid and the parameters of its
  behaviour. No method of \<^verbatim>\<open>Process\<close> and no event of the environment changes them.
\<close>

definition program :: "child \<Rightarrow> int \<times> reaction \<times> (int \<times> reaction) list \<times> nat option" where
  "program c = (cpid c, on_eof c, on_signal c, eof_delay c)"

text \<open>
  The escalation as sections 4.2 and 9 of the specification describe it, an enumerated
  sequence of (action, bound) steps, on the child alone:
  \<open>c1\<close> is the child once the request to close its input (if there is a stdin pipe)
  has been carried out, \<open>t0\<close> the time of the call. The child exits in the first
  stage before whose deadline it has exited: the first ends at \<open>t1\<close>, when SIGTERM is
  sent, the second at \<open>t2\<close>, when SIGKILL is sent.
\<close>

definition exited_before :: "nat \<Rightarrow> child \<Rightarrow> bool" where
  "exited_before t c = (case exit_at c of None \<Rightarrow> False | Some (te, st) \<Rightarrow> te < t)"

definition staged_exit :: "nat \<Rightarrow> bool \<Rightarrow> nat \<Rightarrow> child \<Rightarrow> (nat \<times> int) option" where
  "staged_exit g stdin t0 c1 =
     (let t1 = (if stdin then t0 + g else t0);
          c2 = signal_child SIGTERM t1 c1;
          t2 = t1 + g;
          c3 = signal_child SIGKILL t2 c2
      in if stdin \<and> exited_before t1 c1 then exit_at c1
         else if exited_before t2 c2 then exit_at c2
         else exit_at c3)"

section \<open>Properties\<close>

subsection \<open>Reading the output buffers\<close>

lemma buf_step_other:
  "buf_step e p = p\<lparr>collected_outdata := collected_outdata (buf_step e p),
                     collected_errdata := collected_errdata (buf_step e p)\<rparr>"
  by (cases e) (simp_all add: read_def readerr_def readboth_def Let_def)

lemma buf_run_out: "collected_outdata (buf_run es p) = out_since es (collected_outdata p)"
  by (induction es "collected_outdata p" arbitrary: p rule: out_since.induct)
     (simp_all add: read_def readerr_def readboth_def Let_def)

lemma buf_run_err: "collected_errdata (buf_run es p) = err_since es (collected_errdata p)"
  by (induction es "collected_errdata p" arbitrary: p rule: err_since.induct)
     (simp_all add: read_def readerr_def readboth_def Let_def)

lemma buf_run_other:
  "buf_run es p = p\<lparr>collected_outdata := collected_outdata (buf_run es p),
                     collected_errdata := collected_errdata (buf_run es p)\<rparr>"
proof (induction es arbitrary: p)
  case Nil
  show ?case by simp
next
  case (Cons e es)
  have "buf_run (e # es) p = buf_run es (buf_step e p)" by simp
  also have "\<dots> = (buf_step e p)\<lparr>collected_outdata := collected_outdata (buf_run es (buf_step e p)),
                     collected_errdata := collected_errdata (buf_run es (buf_step e p))\<rparr>"
    by (rule Cons.IH)
  also have "\<dots> = p\<lparr>collected_outdata := collected_outdata (buf_run es (buf_step e p)),
                     collected_errdata := collected_errdata (buf_run es (buf_step e p))\<rparr>"
    by (subst buf_step_other) simp
  finally show ?case by simp
qed

text \<open>
  Claim C4. Each of \<^verbatim>\<open>read\<close>, \<^verbatim>\<open>readerr\<close>, \<^verbatim>\<open>readboth\<close> returns the
  concatenation, in order, of the chunks in its buffer(s) and leaves the process as it
  was except that the buffer(s) are empty; being total functions of the process alone,
  they never wait. After any history of reader appends and read calls, starting from a
  process \<open>p\<close>, the data returned is the concatenation of the chunks appended since the
  last call that emptied that buffer (\<^verbatim>\<open>read\<close> or \<^verbatim>\<open>readboth\<close> for stdout,
  \<^verbatim>\<open>readerr\<close> or \<^verbatim>\<open>readboth\<close> for stderr); the history changes nothing but the
  two buffers; and on a process just constructed all three return empty strings.
\<close>

theorem read_snapshots_and_clears:
  "read p = (concat (collected_outdata p), p\<lparr>collected_outdata := []\<rparr>) \<and>
   readerr p = (concat (collected_errdata p), p\<lparr>collected_errdata := []\<rparr>) \<and>
   readboth p = ((concat (collected_outdata p), concat (collected_errdata p)),
                 p\<lparr>collected_outdata := [], collected_errdata := []\<rparr>) \<and>
   fst (read (buf_run es p)) = concat (out_since es (collected_outdata p)) \<and>
   fst (readerr (buf_run es p)) = concat (err_since es (collected_errdata p)) \<and>
   fst (readboth (buf_run es p)) =
     (concat (out_since es (collected_outdata p)), concat (err_since es (collected_errdata p))) \<and>
   buf_run es p = p\<lparr>collected_outdata := out_since es (collected_outdata p),
                      collected_errdata := err_since es (collected_errdata p)\<rparr> \<and>
   fst (read (Process_init i out err c)) = '''' \<and>
   fst (readerr (Process_init i out err c)) = '''' \<and>
   fst (readboth (Process_init i out err c)) = ('''', '''')"
proof -
  have other: "buf_run es p = p\<lparr>collected_outdata := out_since es (collected_outdata p),
                      collected_errdata := err_since es (collected_errdata p)\<rparr>"
    using buf_run_other [of es p] by (simp add: buf_run_out buf_run_err)
  show ?thesis
    by (simp add: read_def readerr_def readboth_def Let_def buf_run_out buf_run_err
          Process_init_def other [symmetric])
qed

theorem read_snapshots_and_clears_witness:
  "fst (read (buf_run [Out_chunk ''ab'', Call_readboth, Out_chunk ''c'', Err_chunk ''e'',
                       Out_chunk ''d''] p_ex)) = ''cd'' \<and>
   fst (readerr (buf_run [Out_chunk ''ab'', Call_readboth, Out_chunk ''c'', Err_chunk ''e'',
                       Out_chunk ''d''] p_ex)) = ''e'' \<and>
   read (p_ex\<lparr>collected_outdata := [''x'', ''yz'']\<rparr>) = (''xyz'', p_ex)"
  using read_snapshots_and_clears [of "p_ex\<lparr>collected_outdata := [''x'', ''yz'']\<rparr>" "[]" True True True c_ex]
    read_snapshots_and_clears [of p_ex "[Out_chunk ''ab'', Call_readboth, Out_chunk ''c'', Err_chunk ''e'',
                       Out_chunk ''d'']" True True True c_ex]
  by (simp add: p_ex_def Process_init_def read_def readerr_def readboth_def Let_def)

subsection \<open>Writing to the input queue\<close>

lemma write_all_ok:
  "has_stdin p \<Longrightarrow>
   write_all ds p = Inr (p\<lparr>pending_input := pending_input p @ ds,
                           inputsem := inputsem p + length ds\<rparr>)"
  by (induction ds arbitrary: p) (simp_all add: write_proc_def)

text \<open>
  Claim C7. \<^verbatim>\<open>write\<close> on a process without a stdin pipe raises (the ValueError that
  the specification calls InvalidStream) and changes nothing. Otherwise, whatever the
  queue holds, it returns with the chunk appended as the last element of the pending
  queue and the semaphore incremented by one, every other field as it was; so any
  number of successive writes succeed, queueing the chunks in the order written.
\<close>

theorem write_appends_or_invalid_stream:
  "(\<not> has_stdin p \<longrightarrow> write_proc data p = Inl ValueError) \<and>
   (has_stdin p \<longrightarrow>
      write_proc data p = Inr (p\<lparr>pending_input := pending_input p @ [data],
                                 inputsem := inputsem p + 1\<rparr>)) \<and>
   (has_stdin p \<longrightarrow>
      write_all ds p = Inr (p\<lparr>pending_input := pending_input p @ ds,
                              inputsem := inputsem p + length ds\<rparr>))"
  by (simp add: write_proc_def write_all_ok)

theorem write_appends_or_invalid_stream_witness:
  "has_stdin p_ex \<and> \<not> has_stdin (p_ex\<lparr>has_stdin := False\<rparr>) \<and>
   write_proc ''ping'' (p_ex\<lparr>has_stdin := False\<rparr>) = Inl ValueError \<and>
   write_proc ''ping'' (p_ex\<lparr>pending_input := [''a''], inputsem := 1\<rparr>) =
     Inr (p_ex\<lparr>pending_input := [''a'', ''ping''], inputsem := 2\<rparr>) \<and>
   write_all [''x'', ''y''] p_ex = Inr (p_ex\<lparr>pending_input := [''x'', ''y''], inputsem := 2\<rparr>)"
  using write_appends_or_invalid_stream [of "p_ex\<lparr>has_stdin := False\<rparr>" "''ping''" "[]"]
    write_appends_or_invalid_stream [of "p_ex\<lparr>pending_input := [''a''], inputsem := 1\<rparr>" "''ping''" "[]"]
    write_appends_or_invalid_stream [of p_ex "''ping''" "[''x'', ''y'']"]
  by (simp add: p_ex_def Process_init_def)

subsection \<open>Facts about the Deadline Guard's entry and exit\<close>

lemma py_int_elapsed: "t0 \<le> t1 \<Longrightarrow> py_int (of_nat t1 - of_nat t0 + 1 / 2) = int (t1 - t0)"
proof -
  assume le: "t0 \<le> t1"
  have eq: "(of_nat t1 - of_nat t0 + 1 / 2 :: rat) = of_int (int (t1 - t0)) + 1 / 2"
    using le by (simp add: of_nat_diff)
  have "\<lfloor>of_int (int (t1 - t0)) + (1 / 2 :: rat)\<rfloor> = int (t1 - t0)"
    by (rule floor_unique) simp_all
  moreover have "\<not> (of_int (int (t1 - t0)) + (1 / 2 :: rat) < 0)"
    by (simp add: add_nonneg_nonneg)
  ultimately show ?thesis
    unfolding py_int_def eq by simp
qed

lemma with_timeout_enter_eq:
  "with_timeout_enter timeout w =
     ((classes w, (case alarm w of None \<Rightarrow> 0 | Some a \<Rightarrow> a - clock w), sigalrm w, clock w),
      w\<lparr>classes := classes w + 1, sigalrm := Handler (SigAlarm (classes w)),
        alarm := (if timeout = 0 then None else Some (clock w + timeout))\<rparr>)"
  by (simp add: with_timeout_enter_def signal_alarm_def signal_signal_def Let_def
        split: option.split)

lemma with_timeout_finally_eq:
  assumes "t0 \<le> clock w"
  shows "with_timeout_finally (k, oldalarm, oldhandler, t0) r (st, w) =
     (if oldalarm = 0 then (r, st, w\<lparr>alarm := None, sigalrm := oldhandler\<rparr>)
      else if t0 + oldalarm \<le> clock w then
        (case oldhandler of
           SIG_IGN \<Rightarrow> (r, st, w\<lparr>alarm := None, sigalrm := oldhandler\<rparr>)
         | SIG_DFL \<Rightarrow> (Dead, st, w\<lparr>alarm := None, sigalrm := oldhandler\<rparr>)
         | Handler e \<Rightarrow> (Exc e, st, w\<lparr>alarm := None, sigalrm := oldhandler\<rparr>))
      else (r, st, w\<lparr>alarm := Some (t0 + oldalarm), sigalrm := oldhandler\<rparr>))"
proof -
  have el: "py_int (of_nat (clock w) - of_nat t0 + 1 / 2) = int (clock w - t0)"
    using assms by (rule py_int_elapsed)
  show ?thesis
    using assms
    by (cases oldhandler)
       (auto simp add: with_timeout_finally_def signal_alarm_def signal_signal_def Let_def
          raise_SIGALRM_def el nat_diff_distrib)
qed

subsection \<open>A process whose exit status is cached\<close>

text \<open>
  The world after a guarded call that took no time: the outer alarm and handler are
  back; only the count of classes has grown. An alarm that was already overdue when
  the guard was entered reads as 0 seconds left and is dropped.
\<close>

lemma wait_cached: "exitstatus p = Some st \<Longrightarrow> wait flags (p, w) = Some (Ret (Some st), (p, w))"
  by (simp add: wait_def)

lemma kill_cached: "exitstatus p = Some st \<Longrightarrow> kill sig (p, w) = (Exc (OSError ECHILD), (p, w))"
  by (simp add: kill_def)

lemma with_timeout_wait_cached:
  assumes "exitstatus p = Some st"
  shows "with_timeout g (wait flags) (p, w) =
     Some (Ret (Some st), p,
           w\<lparr>classes := classes w + 1,
             alarm := (case alarm w of
                         None \<Rightarrow> None
                       | Some a \<Rightarrow> if a \<le> clock w then None else Some a)\<rparr>)"
proof -
  let ?w1 = "w\<lparr>classes := classes w + 1, sigalrm := Handler (SigAlarm (classes w)),
        alarm := (if g = 0 then None else Some (clock w + g))\<rparr>"
  have fin: "with_timeout_finally
        (classes w, (case alarm w of None \<Rightarrow> 0 | Some a \<Rightarrow> a - clock w), sigalrm w, clock w)
        (Ret (Some st)) (p, ?w1) =
      (Ret (Some st), p,
           w\<lparr>classes := classes w + 1,
             alarm := (case alarm w of
                         None \<Rightarrow> None
                       | Some a \<Rightarrow> if a \<le> clock w then None else Some a)\<rparr>)"
    by (subst with_timeout_finally_eq) (auto split: option.split)
  show ?thesis
    using assms fin
    by (simp add: with_timeout_def with_timeout_enter_eq wait_cached)
qed

lemma terminate_cached_stdin:
  assumes "has_stdin p" and "exitstatus p = Some st"
  shows "terminate g (p, w) =
     Some (Ret (Some st), closeinput p,
           w\<lparr>classes := classes w + 1,
             alarm := (case alarm w of
                         None \<Rightarrow> None
                       | Some a \<Rightarrow> if a \<le> clock w then None else Some a)\<rparr>)"
proof -
  have "exitstatus (closeinput p) = Some st"
    using assms by (simp add: closeinput_def)
  from with_timeout_wait_cached [OF this, of g 0 w] assms show ?thesis
    by (simp add: terminate_def is_Timeout_def)
qed

lemma terminate_cached_nostdin:
  assumes "\<not> has_stdin p" and "exitstatus p = Some st"
  shows "terminate g (p, w) = Some (Exc (OSError ECHILD), p, w)"
  using assms by (simp add: terminate_def terminate_sigterm_def kill_cached)

text \<open>
  Claim C9. On a process whose exit status is already cached, \<^verbatim>\<open>terminate\<close> with
  any grace period depends on how the process was constructed. With a stdin pipe, it
  requests the close of the input, the guarded \<^verbatim>\<open>wait\<close> of the first stage returns
  the cached status at once, and \<^verbatim>\<open>terminate\<close> returns it: no time passes and no
  system call is made on the child. Without a stdin pipe, it goes straight to
  \<^verbatim>\<open>kill\<close> with SIGTERM, which raises OSError with ECHILD, so \<^verbatim>\<open>terminate\<close>
  raises and leaves process and world untouched.
\<close>

theorem terminate_on_cached_status:
  assumes "exitstatus p = Some st"
  shows "(has_stdin p \<longrightarrow>
            (\<exists>w'. terminate g (p, w) = Some (Ret (Some st), closeinput p, w') \<and>
                   clock w' = clock w \<and> oslog w' = oslog w \<and> sigalrm w' = sigalrm w)) \<and>
         (\<not> has_stdin p \<longrightarrow> terminate g (p, w) = Some (Exc (OSError ECHILD), p, w))"
  using assms by (simp add: terminate_cached_stdin terminate_cached_nostdin)

theorem terminate_on_cached_status_witness:
  "exitstatus (p_ex\<lparr>exitstatus := Some 0\<rparr>) = Some 0 \<and>
   terminate 1 (p_ex\<lparr>exitstatus := Some 0\<rparr>, w_ex) =
     Some (Ret (Some 0), p_ex\<lparr>exitstatus := Some 0, inputsem := 1, quit := True\<rparr>,
           w_ex\<lparr>classes := 1\<rparr>) \<and>
   terminate 1 (p_ex\<lparr>exitstatus := Some 0, has_stdin := False\<rparr>, w_ex) =
     Some (Exc (OSError 10), p_ex\<lparr>exitstatus := Some 0, has_stdin := False\<rparr>, w_ex)"
proof -
  have a: "exitstatus (p_ex\<lparr>exitstatus := Some 0\<rparr>) = Some 0"
    by simp
  have b: "exitstatus (p_ex\<lparr>exitstatus := Some 0, has_stdin := False\<rparr>) = Some 0"
    by simp
  have s: "has_stdin (p_ex\<lparr>exitstatus := Some 0\<rparr>)"
    by (simp add: p_ex_def Process_init_def)
  have n: "\<not> has_stdin (p_ex\<lparr>exitstatus := Some 0, has_stdin := False\<rparr>)"
    by simp
  have "terminate 1 (p_ex\<lparr>exitstatus := Some 0\<rparr>, w_ex) =
     Some (Ret (Some 0), p_ex\<lparr>exitstatus := Some 0, inputsem := 1, quit := True\<rparr>,
           w_ex\<lparr>classes := 1\<rparr>)"
    using terminate_cached_stdin [OF s a, of 1 w_ex]
    by (simp add: closeinput_def p_ex_def Process_init_def w_ex_def)
  moreover have "terminate 1 (p_ex\<lparr>exitstatus := Some 0, has_stdin := False\<rparr>, w_ex) =
     Some (Exc (OSError 10), p_ex\<lparr>exitstatus := Some 0, has_stdin := False\<rparr>, w_ex)"
    using terminate_on_cached_status [OF b, of 1 w_ex] n by (simp add: ECHILD_def)
  ultimately show ?thesis using a by simp
qed

subsection \<open>The cached exit status\<close>

lemma feeder_exitstatus: "exitstatus (fst (feeder n (p, w))) = exitstatus p"
  by (induction n arbitrary: p)
     (auto simp add: Let_def drain_close_def split: list.split)

lemma call_cached:
  assumes "exitstatus p = Some st"
  shows "\<exists>r p' w'. call c (p, w) = Some (r, p', w') \<and> r \<noteq> Dead \<and> exitstatus p' = Some st"
proof (cases c)
  case (C_kill sig)
  then show ?thesis using assms by (simp add: kill_cached)
next
  case (C_wait flags)
  then show ?thesis using assms by (simp add: wait_cached)
next
  case (C_terminate g)
  show ?thesis
  proof (cases "has_stdin p")
    case True
    then show ?thesis
      using assms C_terminate by (simp add: terminate_cached_stdin closeinput_def)
  next
    case False
    then show ?thesis
      using assms C_terminate by (simp add: terminate_cached_nostdin)
  qed
next
  case C_read
  then show ?thesis using assms by (simp add: read_def)
next
  case C_readerr
  then show ?thesis using assms by (simp add: readerr_def)
next
  case C_readboth
  then show ?thesis using assms by (simp add: readboth_def)
next
  case (C_write data)
  then show ?thesis using assms by (simp add: write_proc_def)
next
  case C_closeinput
  then show ?thesis using assms by (simp add: closeinput_def)
qed

lemma calls_cached:
  "exitstatus p = Some st \<Longrightarrow>
   \<exists>rs p' w'. calls cs (p, w) = Some (rs, p', w') \<and> length rs = length cs \<and>
               Dead \<notin> set rs \<and> exitstatus p' = Some st"
proof (induction cs arbitrary: p w)
  case Nil
  then show ?case by simp
next
  case (Cons c cs)
  from call_cached [OF Cons.prems, of c w]
  obtain r p1 w1 where c1: "call c (p, w) = Some (r, p1, w1)" and nd: "r \<noteq> Dead"
      and e1: "exitstatus p1 = Some st"
    by blast
  from Cons.IH [OF e1, of w1]
  obtain rs p2 w2 where c2: "calls cs (p1, w1) = Some (rs, p2, w2)"
      and l2: "length rs = length cs" and d2: "Dead \<notin> set rs" and e2: "exitstatus p2 = Some st"
    by blast
  have "calls (c # cs) (p, w) = Some (r # rs, p2, w2)"
    using c1 nd c2 by (cases r) simp_all
  then show ?case
    using l2 d2 e2 nd by auto
qed

lemma join_stdout_exitstatus:
  "join_stdout (p, w) = Some (r, p', w') \<Longrightarrow> exitstatus p' = exitstatus p"
  by (auto simp add: join_stdout_def stdout_thread_done_def split: option.splits)

lemma join_stderr_exitstatus:
  "join_stderr (p, w) = Some (r, p', w') \<Longrightarrow> exitstatus p' = exitstatus p"
  by (auto simp add: join_stderr_def stderr_thread_done_def split: option.splits)

lemma wait_finish_caches:
  assumes "wait_finish st (p, w) = Some (r, p', w')"
  shows "exitstatus p' = Some st \<and> (\<forall>v. r = Ret v \<longrightarrow> v = Some st)"
proof -
  define p2 where "p2 = (if has_stdin p then closeinput (p\<lparr>exitstatus := Some st\<rparr>)
                         else p\<lparr>exitstatus := Some st\<rparr>)"
  have e2: "exitstatus p2 = Some st" "has_stdout p2 = has_stdout p"
    by (simp_all add: p2_def closeinput_def)
  have f0: "wait_finish st (p, w) =
      (case (if has_stdout p then join_stdout (p2, w) else Some (Ret (), p2, w)) of
         None \<Rightarrow> None
       | Some (Exc e, s3) \<Rightarrow> Some (Exc e, s3)
       | Some (Dead, s3) \<Rightarrow> Some (Dead, s3)
       | Some (Ret u, s3) \<Rightarrow>
          (case (if has_stderr (fst s3) then join_stderr s3 else Some (Ret (), s3)) of
                None \<Rightarrow> None
              | Some (Exc e, s4) \<Rightarrow> Some (Exc e, s4)
              | Some (Dead, s4) \<Rightarrow> Some (Dead, s4)
              | Some (Ret u, s4) \<Rightarrow> Some (Ret (Some st), s4)))"
    by (simp add: wait_finish_def Let_def p2_def closeinput_def)
  obtain r3 p3 w3 where j3:
      "(if has_stdout p then join_stdout (p2, w) else Some (Ret (), p2, w)) = Some (r3, p3, w3)"
    using assms unfolding f0
    by (cases "if has_stdout p then join_stdout (p2, w) else Some (Ret (), p2, w)") auto
  have e3: "exitstatus p3 = Some st"
    using j3 e2 join_stdout_exitstatus [of p2 w r3 p3 w3] by (auto split: if_splits)
  have f: "wait_finish st (p, w) =
      (case r3 of
         Exc e \<Rightarrow> Some (Exc e, p3, w3)
       | Dead \<Rightarrow> Some (Dead, p3, w3)
       | Ret u \<Rightarrow>
          (case (if has_stderr p3 then join_stderr (p3, w3) else Some (Ret (), p3, w3)) of
                None \<Rightarrow> None
              | Some (Exc e, s4) \<Rightarrow> Some (Exc e, s4)
              | Some (Dead, s4) \<Rightarrow> Some (Dead, s4)
              | Some (Ret u, s4) \<Rightarrow> Some (Ret (Some st), s4)))"
    unfolding f0 j3 by (simp split: res.split)
  show ?thesis
  proof (cases r3)
    case (Ret u)
    obtain r4 p4 w4 where j4:
        "(if has_stderr p3 then join_stderr (p3, w3) else Some (Ret (), p3, w3)) = Some (r4, p4, w4)"
      using assms unfolding f Ret
      by (cases "if has_stderr p3 then join_stderr (p3, w3) else Some (Ret (), p3, w3)") auto
    have e4: "exitstatus p4 = Some st"
      using j4 e3 join_stderr_exitstatus [of p3 w3 r4 p4 w4] by (auto split: if_splits)
    show ?thesis
      using assms e4 unfolding f Ret j4 by (cases r4) auto
  next
    case (Exc e)
    then show ?thesis using assms e3 unfolding f by auto
  next
    case Dead
    then show ?thesis using assms e3 unfolding f by auto
  qed
qed

lemma wait_caches:
  assumes "wait flags (q, w) = Some (Ret (Some s), q', w')"
      and "WIFEXITED s \<or> WIFSIGNALED s"
  shows "exitstatus q' = Some s"
proof (cases "exitstatus q")
  case (Some s0)
  then show ?thesis using assms by (simp add: wait_def)
next
  case None
  then show ?thesis
    using assms
    by (auto simp add: wait_def Let_def
          split: option.splits res.splits prod.splits if_splits
          dest: wait_finish_caches)
qed

text \<open>
  Claim C1. A \<^verbatim>\<open>wait\<close> that returns a termination status leaves it cached. Once
  the exit status is cached, \<^verbatim>\<open>wait\<close> with any flags, in any state of process and
  world, returns that status and leaves process and world exactly as they were, the
  log of system calls included: no \<^verbatim>\<open>os.waitpid\<close> is made. Every run of calls of
  the public methods (\<^verbatim>\<open>kill\<close>, \<^verbatim>\<open>wait\<close>, \<^verbatim>\<open>terminate\<close>, \<^verbatim>\<open>read\<close>,
  \<^verbatim>\<open>readerr\<close>, \<^verbatim>\<open>readboth\<close>, \<^verbatim>\<open>write\<close>, \<^verbatim>\<open>closeinput\<close>) returns, every
  call with a value or an exception, and ends in a state with the same cached status,
  where a further \<^verbatim>\<open>wait\<close> returns it again; the feeder thread does not change it
  either.
\<close>

theorem exitstatus_immutable_once_cached:
  "(wait flags0 (q, w0) = Some (Ret (Some s), q', w0') \<and> (WIFEXITED s \<or> WIFSIGNALED s)
      \<longrightarrow> exitstatus q' = Some s) \<and>
   (exitstatus p = Some st \<longrightarrow>
      wait flags (p, w) = Some (Ret (Some st), p, w) \<and>
      (\<exists>rs p' w'. calls cs (p, w) = Some (rs, p', w') \<and> length rs = length cs \<and>
          Dead \<notin> set rs \<and> exitstatus p' = Some st \<and>
          wait flags (p', w') = Some (Ret (Some st), p', w')) \<and>
      exitstatus (fst (background (p, w))) = Some st)"
proof -
  have a: "wait flags0 (q, w0) = Some (Ret (Some s), q', w0') \<and> (WIFEXITED s \<or> WIFSIGNALED s)
      \<longrightarrow> exitstatus q' = Some s"
    using wait_caches by blast
  have b: "exitstatus p = Some st \<longrightarrow>
      wait flags (p, w) = Some (Ret (Some st), p, w) \<and>
      (\<exists>rs p' w'. calls cs (p, w) = Some (rs, p', w') \<and> length rs = length cs \<and>
          Dead \<notin> set rs \<and> exitstatus p' = Some st \<and>
          wait flags (p', w') = Some (Ret (Some st), p', w')) \<and>
      exitstatus (fst (background (p, w))) = Some st"
  proof
    assume e: "exitstatus p = Some st"
    from calls_cached [OF e, of cs w]
    obtain rs p' w' where c: "calls cs (p, w) = Some (rs, p', w')"
        and l: "length rs = length cs" and d: "Dead \<notin> set rs" and e': "exitstatus p' = Some st"
      by blast
    have "wait flags (p', w') = Some (Ret (Some st), p', w')"
      using e' by (rule wait_cached)
    with c l d e' have "\<exists>rs p' w'. calls cs (p, w) = Some (rs, p', w') \<and> length rs = length cs \<and>
          Dead \<notin> set rs \<and> exitstatus p' = Some st \<and>
          wait flags (p', w') = Some (Ret (Some st), p', w')"
      by blast
    moreover have "wait flags (p, w) = Some (Ret (Some st), p, w)"
      using e by (rule wait_cached)
    moreover have "exitstatus (fst (background (p, w))) = Some st"
      using e by (simp add: background_def feeder_exitstatus)
    ultimately show "wait flags (p, w) = Some (Ret (Some st), p, w) \<and>
      (\<exists>rs p' w'. calls cs (p, w) = Some (rs, p', w') \<and> length rs = length cs \<and>
          Dead \<notin> set rs \<and> exitstatus p' = Some st \<and>
          wait flags (p', w') = Some (Ret (Some st), p', w')) \<and>
      exitstatus (fst (background (p, w))) = Some st"
      by blast
  qed
  from a b show ?thesis by blast
qed

theorem exitstatus_immutable_once_cached_witness:
  "wait 0 (p_ex\<lparr>child := c_ex\<lparr>exit_at := Some (50, 0)\<rparr>\<rparr>, w_ex) =
     Some (Ret (Some 0),
           p_ex\<lparr>exitstatus := Some 0, quit := True, inputsem := 1,
                 collected_outdata := [''ab'', ''c'', ''''], collected_errdata := [''''],
                 child := c_ex\<lparr>exit_at := Some (50, 0), reaped := True,
                                stdout_pipe := None, stderr_pipe := None\<rparr>\<rparr>,
           w_ex\<lparr>oslog := [(100, Waitpid 4242 0 None)]\<rparr>) \<and>
   (WIFEXITED 0 \<or> WIFSIGNALED 0) \<and>
   wait 1 (p_ex\<lparr>exitstatus := Some 0, quit := True, inputsem := 1,
                 collected_outdata := [''ab'', ''c'', ''''], collected_errdata := [''''],
                 child := c_ex\<lparr>exit_at := Some (50, 0), reaped := True,
                                stdout_pipe := None, stderr_pipe := None\<rparr>\<rparr>,
           w_ex\<lparr>oslog := [(100, Waitpid 4242 0 None)]\<rparr>) =
     Some (Ret (Some 0),
           p_ex\<lparr>exitstatus := Some 0, quit := True, inputsem := 1,
                 collected_outdata := [''ab'', ''c'', ''''], collected_errdata := [''''],
                 child := c_ex\<lparr>exit_at := Some (50, 0), reaped := True,
                                stdout_pipe := None, stderr_pipe := None\<rparr>\<rparr>,
           w_ex\<lparr>oslog := [(100, Waitpid 4242 0 None)]\<rparr>)"
proof -
  let ?p = "p_ex\<lparr>child := c_ex\<lparr>exit_at := Some (50, 0)\<rparr>\<rparr>"
  let ?q = "p_ex\<lparr>exitstatus := Some 0, quit := True, inputsem := 1,
                 collected_outdata := [''ab'', ''c'', ''''], collected_errdata := [''''],
                 child := c_ex\<lparr>exit_at := Some (50, 0), reaped := True,
                                stdout_pipe := None, stderr_pipe := None\<rparr>\<rparr>"
  let ?w = "w_ex\<lparr>oslog := [(100, Waitpid 4242 0 None)]\<rparr>"
  have run: "wait 0 (?p, w_ex) = Some (Ret (Some 0), ?q, ?w)"
    by (simp add: wait_def os_waitpid_def background_def blocking_def p_ex_def c_ex_def
          w_ex_def Process_init_def Let_def WIFEXITED_def closeinput_def wait_finish_def
          join_stdout_def join_stderr_def thread_join_def eof_time_def
          stdout_thread_done_def stderr_thread_done_def)
  have ex: "WIFEXITED 0 \<or> WIFSIGNALED 0"
    by (simp add: WIFEXITED_def)
  have cached: "exitstatus ?q = Some 0"
    using exitstatus_immutable_once_cached [of 0 ?p w_ex 0 ?q ?w ?q 0 1 ?w "[]"] run ex
    by blast
  have "wait 1 (?q, ?w) = Some (Ret (Some 0), ?q, ?w)"
    using exitstatus_immutable_once_cached [of 0 ?p w_ex 0 ?q ?w ?q 0 1 ?w "[]"] cached
    by blast
  with run ex show ?thesis by blast
qed

subsection \<open>Sending signals\<close>

text \<open>
  Claim C5, as stated, fails: on a process whose exit status is cached, \<^verbatim>\<open>kill\<close>
  does not fail with the operating system's "no such process" (ESRCH, errno 3). It
  raises an OSError that the method builds itself with ECHILD (errno 10, "no child
  processes"), and makes no system call from which an error code could originate.
\<close>

theorem kill_cached_is_not_esrch:
  "fst (kill SIGTERM (p_ex\<lparr>exitstatus := Some 0\<rparr>, w_ex)) = Exc (OSError 10) \<and>
   fst (kill SIGTERM (p_ex\<lparr>exitstatus := Some 0\<rparr>, w_ex)) \<noteq> Exc (OSError ESRCH) \<and>
   oslog (snd (snd (kill SIGTERM (p_ex\<lparr>exitstatus := Some 0\<rparr>, w_ex)))) = oslog w_ex"
  by (simp add: kill_def ECHILD_def ESRCH_def)

text \<open>
  Claim C5, amended. While the exit status is not known, \<^verbatim>\<open>kill\<close> is the system
  call: a signal number in range is delivered to the child, which is logged, and the
  errors of the call itself (EINVAL for a signal number out of range, ESRCH for a child
  that was collected behind the object's back) reach the caller as they are. Once the
  exit status is known, \<^verbatim>\<open>kill\<close> raises OSError with ECHILD and changes nothing.
\<close>

theorem kill_delivers_or_echild:
  "(exitstatus p \<noteq> None \<longrightarrow> kill sig (p, w) = (Exc (OSError ECHILD), p, w)) \<and>
   (exitstatus p = None \<longrightarrow> kill sig (p, w) = os_kill sig (p, w)) \<and>
   (exitstatus p = None \<and> 0 \<le> sig \<and> sig \<le> 64 \<and> \<not> reaped (child p) \<longrightarrow>
      kill sig (p, w) =
        (Ret (), p\<lparr>child := signal_child sig (clock w) (child p)\<rparr>,
         w\<lparr>oslog := oslog w @ [(clock w, Kill (cpid (child p)) sig)]\<rparr>)) \<and>
   (exitstatus p = None \<and> (sig < 0 \<or> 64 < sig) \<longrightarrow>
      kill sig (p, w) = (Exc (OSError EINVAL), p, w)) \<and>
   (exitstatus p = None \<and> 0 \<le> sig \<and> sig \<le> 64 \<and> reaped (child p) \<longrightarrow>
      kill sig (p, w) = (Exc (OSError ESRCH), p, w))"
  by (auto simp add: kill_def os_kill_def Let_def)

theorem kill_delivers_or_echild_witness:
  "exitstatus p_ex = None \<and> \<not> reaped (child p_ex) \<and>
   kill 9 (p_ex, w_ex) =
     (Ret (), p_ex\<lparr>child := c_ex\<lparr>exit_at := Some (100, 9)\<rparr>\<rparr>,
      w_ex\<lparr>oslog := [(100, Kill 4242 9)]\<rparr>) \<and>
   kill 9 (p_ex\<lparr>exitstatus := Some 9\<rparr>, w_ex) =
     (Exc (OSError 10), p_ex\<lparr>exitstatus := Some 9\<rparr>, w_ex) \<and>
   kill 99 (p_ex, w_ex) = (Exc (OSError 22), p_ex, w_ex) \<and>
   kill 9 (p_ex\<lparr>child := c_ex\<lparr>reaped := True\<rparr>\<rparr>, w_ex) =
     (Exc (OSError 3), p_ex\<lparr>child := c_ex\<lparr>reaped := True\<rparr>\<rparr>, w_ex)"
proof -
  have a: "exitstatus p_ex = None" and b: "\<not> reaped (child p_ex)"
    by (simp_all add: p_ex_def Process_init_def c_ex_def)
  have "kill 9 (p_ex, w_ex) =
     (Ret (), p_ex\<lparr>child := signal_child 9 (clock w_ex) (child p_ex)\<rparr>,
         w_ex\<lparr>oslog := oslog w_ex @ [(clock w_ex, Kill (cpid (child p_ex)) 9)]\<rparr>)"
  proof -
    have r: "(0::int) \<le> 9 \<and> (9::int) \<le> 64" by simp
    show ?thesis
      using kill_delivers_or_echild [of p_ex 9 w_ex] a b r by blast
  qed
  moreover have "signal_child 9 (clock w_ex) (child p_ex) = c_ex\<lparr>exit_at := Some (100, 9)\<rparr>"
    by (simp add: signal_child_def has_exited_def react_def SIGKILL_def p_ex_def
          Process_init_def c_ex_def w_ex_def)
  moreover have "oslog w_ex @ [(clock w_ex, Kill (cpid (child p_ex)) 9)] = [(100, Kill 4242 9)]"
    by (simp add: p_ex_def Process_init_def c_ex_def w_ex_def)
  ultimately have k: "kill 9 (p_ex, w_ex) =
     (Ret (), p_ex\<lparr>child := c_ex\<lparr>exit_at := Some (100, 9)\<rparr>\<rparr>,
      w_ex\<lparr>oslog := [(100, Kill 4242 9)]\<rparr>)"
    by simp
  have c: "kill 9 (p_ex\<lparr>exitstatus := Some 9\<rparr>, w_ex) =
     (Exc (OSError 10), p_ex\<lparr>exitstatus := Some 9\<rparr>, w_ex)"
  proof -
    have r: "exitstatus (p_ex\<lparr>exitstatus := Some 9\<rparr>) \<noteq> None" by simp
    have "kill 9 (p_ex\<lparr>exitstatus := Some 9\<rparr>, w_ex) =
       (Exc (OSError ECHILD), p_ex\<lparr>exitstatus := Some 9\<rparr>, w_ex)"
      using kill_delivers_or_echild [of "p_ex\<lparr>exitstatus := Some 9\<rparr>" 9 w_ex] r by blast
    then show ?thesis by (simp add: ECHILD_def)
  qed
  have d: "kill 99 (p_ex, w_ex) = (Exc (OSError 22), p_ex, w_ex)"
  proof -
    have r: "(99::int) < 0 \<or> (64::int) < 99" by simp
    have "kill 99 (p_ex, w_ex) = (Exc (OSError EINVAL), p_ex, w_ex)"
      using kill_delivers_or_echild [of p_ex 99 w_ex] a r by blast
    then show ?thesis by (simp add: EINVAL_def)
  qed
  have e: "kill 9 (p_ex\<lparr>child := c_ex\<lparr>reaped := True\<rparr>\<rparr>, w_ex) =
     (Exc (OSError 3), p_ex\<lparr>child := c_ex\<lparr>reaped := True\<rparr>\<rparr>, w_ex)"
  proof -
    have r: "exitstatus (p_ex\<lparr>child := c_ex\<lparr>reaped := True\<rparr>\<rparr>) = None \<and> (0::int) \<le> 9 \<and>
        (9::int) \<le> 64 \<and> reaped (child (p_ex\<lparr>child := c_ex\<lparr>reaped := True\<rparr>\<rparr>))"
      using a by simp
    have "kill 9 (p_ex\<lparr>child := c_ex\<lparr>reaped := True\<rparr>\<rparr>, w_ex) =
       (Exc (OSError ESRCH), p_ex\<lparr>child := c_ex\<lparr>reaped := True\<rparr>\<rparr>, w_ex)"
      using kill_delivers_or_echild [of "p_ex\<lparr>child := c_ex\<lparr>reaped := True\<rparr>\<rparr>" 9 w_ex] r
      by blast
    then show ?thesis by (simp add: ESRCH_def)
  qed
  from a b k c d e show ?thesis by blast
qed

subsection \<open>Closing the input\<close>

lemma feeder_extra_permit:
  "quit p \<Longrightarrow> length (pending_input p) < inputsem p \<Longrightarrow> length (pending_input p) < n \<Longrightarrow>
   feeder (Suc n) (p\<lparr>inputsem := inputsem p + 1\<rparr>, w) =
     (case feeder n (p, w) of (p', w') \<Rightarrow> (p'\<lparr>inputsem := inputsem p' + 1\<rparr>, w'))"
proof (induction n arbitrary: p)
  case 0
  then show ?case by simp
next
  case (Suc n)
  show ?case
  proof (cases "feeder_alive p")
    case False
    then show ?thesis by simp
  next
    case alive: True
    have pos: "inputsem p \<noteq> 0"
      using Suc.prems by simp
    show ?thesis
    proof (cases "pending_input p")
      case Nil
      then show ?thesis
        using alive pos Suc.prems
        by (simp add: drain_close_def Let_def)
    next
      case (Cons data rest)
      show ?thesis
      proof (cases "has_exited (clock w) (child p)")
        case True
        then show ?thesis
          using alive pos Cons by (simp add: Let_def)
      next
        case False
        let ?p2 = "p\<lparr>inputsem := inputsem p - 1, pending_input := rest,
                       child := (child p)\<lparr>stdin_data := stdin_data (child p) @ [data]\<rparr>\<rparr>"
        have q: "quit ?p2" using Suc.prems by simp
        have l1: "length (pending_input ?p2) < inputsem ?p2"
          using Suc.prems Cons by simp
        have l2: "length (pending_input ?p2) < n"
          using Suc.prems Cons by simp
        have ih: "feeder (Suc n) (?p2\<lparr>inputsem := inputsem ?p2 + 1\<rparr>, w) =
           (case feeder n (?p2, w) of (p', w') \<Rightarrow> (p'\<lparr>inputsem := inputsem p' + 1\<rparr>, w'))"
          using Suc.IH [OF q l1 l2] .
        have lhs: "feeder (Suc (Suc n)) (p\<lparr>inputsem := inputsem p + 1\<rparr>, w) =
              feeder (Suc n) (?p2\<lparr>inputsem := inputsem ?p2 + 1\<rparr>, w)"
          using alive pos Cons False by (simp add: Let_def)
        have rhs: "feeder (Suc n) (p, w) = feeder n (?p2, w)"
          using alive pos Cons False by (simp add: Let_def)
        show ?thesis
          unfolding lhs rhs ih ..
      qed
    qed
  qed
qed

lemma background_second_closeinput:
  assumes "length (pending_input p) \<le> inputsem p"
  shows "background (closeinput (closeinput p), w) =
     (case background (closeinput p, w) of (p', w') \<Rightarrow> (p'\<lparr>inputsem := inputsem p' + 1\<rparr>, w'))"
proof -
  let ?q = "closeinput p"
  have q: "quit ?q" by (simp add: closeinput_def)
  have l1: "length (pending_input ?q) < inputsem ?q"
    using assms by (simp add: closeinput_def)
  have l2: "length (pending_input ?q) < inputsem ?q"
    using assms by (simp add: closeinput_def)
  have cc: "closeinput ?q = ?q\<lparr>inputsem := inputsem ?q + 1\<rparr>"
    by (simp add: closeinput_def)
  show ?thesis
  proof (cases "has_stdin p")
    case False
    then show ?thesis
      by (simp add: background_def closeinput_def)
  next
    case True
    then have "background (closeinput ?q, w) =
        feeder (Suc (inputsem ?q)) (?q\<lparr>inputsem := inputsem ?q + 1\<rparr>, w)"
      unfolding cc by (simp add: background_def closeinput_def)
    also have "\<dots> = (case feeder (inputsem ?q) (?q, w) of
                        (p', w') \<Rightarrow> (p'\<lparr>inputsem := inputsem p' + 1\<rparr>, w'))"
      by (rule feeder_extra_permit [OF q l1 l2])
    finally show ?thesis
      using True by (simp add: background_def closeinput_def)
  qed
qed

text \<open>
  Claim C6, as stated, fails: \<^verbatim>\<open>closeinput\<close> makes no check of the stdin stream.
  On a process constructed without a stdin pipe, where \<^verbatim>\<open>write\<close> raises, it
  returns normally, having set the quit flag and incremented the semaphore.
\<close>

theorem closeinput_without_stdin_returns:
  "call C_closeinput (p_ex\<lparr>has_stdin := False, feeder_alive := False\<rparr>, w_ex) =
     Some (Ret V_none,
           p_ex\<lparr>has_stdin := False, feeder_alive := False, quit := True, inputsem := 1\<rparr>,
           w_ex) \<and>
   call (C_write ''x'') (p_ex\<lparr>has_stdin := False, feeder_alive := False\<rparr>, w_ex) =
     Some (Exc ValueError, p_ex\<lparr>has_stdin := False, feeder_alive := False\<rparr>, w_ex)"
  by (simp add: closeinput_def write_proc_def p_ex_def Process_init_def)

text \<open>
  Claim C6, amended. \<^verbatim>\<open>closeinput\<close> never raises, whether or not the process
  has a stdin pipe: it sets the quit flag and increments the semaphore, every other
  field as it was. A second call changes nothing but the semaphore, which it increments
  once more; and when the semaphore holds at least one permit for each pending chunk,
  the feeder thread does the same after two calls as after one (the same chunks
  written, the same close of the child's stdin), one unused permit remaining.
\<close>

theorem closeinput_sets_quit:
  "call C_closeinput (p, w) = Some (Ret V_none, closeinput p, w) \<and>
   closeinput p = p\<lparr>quit := True, inputsem := inputsem p + 1\<rparr> \<and>
   closeinput (closeinput p) = (closeinput p)\<lparr>inputsem := inputsem p + 2\<rparr> \<and>
   (length (pending_input p) \<le> inputsem p \<longrightarrow>
      background (closeinput (closeinput p), w) =
        (case background (closeinput p, w) of
           (p', w') \<Rightarrow> (p'\<lparr>inputsem := inputsem p' + 1\<rparr>, w')))"
  using background_second_closeinput [of p w] by (simp add: closeinput_def)

theorem closeinput_sets_quit_witness:
  "length (pending_input (p_ex\<lparr>pending_input := [''a''], inputsem := 1\<rparr>)) \<le>
     inputsem (p_ex\<lparr>pending_input := [''a''], inputsem := 1\<rparr>) \<and>
   background (closeinput (p_ex\<lparr>pending_input := [''a''], inputsem := 1\<rparr>), w_ex) =
     (p_ex\<lparr>quit := True, feeder_alive := False,
           child := c_ex\<lparr>stdin_data := [''a''], stdin_closed := True\<rparr>\<rparr>,
      w_ex) \<and>
   background (closeinput (closeinput (p_ex\<lparr>pending_input := [''a''], inputsem := 1\<rparr>)), w_ex) =
     (p_ex\<lparr>quit := True, feeder_alive := False, inputsem := 1,
           child := c_ex\<lparr>stdin_data := [''a''], stdin_closed := True\<rparr>\<rparr>,
      w_ex)"
proof -
  let ?p = "p_ex\<lparr>pending_input := [''a''], inputsem := 1\<rparr>"
  have h: "length (pending_input ?p) \<le> inputsem ?p"
    by simp
  have one: "background (closeinput ?p, w_ex) =
     (p_ex\<lparr>quit := True, feeder_alive := False,
           child := c_ex\<lparr>stdin_data := [''a''], stdin_closed := True\<rparr>\<rparr>,
      w_ex)"
    by (simp add: background_def closeinput_def p_ex_def Process_init_def c_ex_def w_ex_def
          eval_nat_numeral has_exited_def drain_close_def react_def Let_def)
  have "background (closeinput (closeinput ?p), w_ex) =
        (case background (closeinput ?p, w_ex) of
           (p', w') \<Rightarrow> (p'\<lparr>inputsem := inputsem p' + 1\<rparr>, w'))"
    using closeinput_sets_quit [of ?p w_ex] h by blast
  then have "background (closeinput (closeinput ?p), w_ex) =
     (p_ex\<lparr>quit := True, feeder_alive := False, inputsem := 1,
           child := c_ex\<lparr>stdin_data := [''a''], stdin_closed := True\<rparr>\<rparr>,
      w_ex)"
    unfolding one by (simp add: p_ex_def Process_init_def)
  with h one show ?thesis by blast
qed

subsection \<open>The feeder thread between system calls\<close>

lemma feeder_world: "snd (feeder n (p, w)) = w"
  by (induction n arbitrary: p)
     (simp_all add: Let_def drain_close_def split: list.split)

lemma feeder_clock_only:
  "clock w' = clock w \<Longrightarrow> fst (feeder n (p, w')) = fst (feeder n (p, w))"
  by (induction n arbitrary: p)
     (simp_all add: Let_def drain_close_def split: list.split)

lemma react_keeps:
  "reaped (react r t c) = reaped c \<and> program (react r t c) = program c"
  by (simp add: react_def program_def split: reaction.split option.split)

lemma feeder_has_stdin: "has_stdin (fst (feeder n (p, w))) = has_stdin p"
  by (induction n arbitrary: p)
     (simp_all add: Let_def drain_close_def split: list.split)

lemma feeder_has_stdout: "has_stdout (fst (feeder n (p, w))) = has_stdout p"
  by (induction n arbitrary: p)
     (simp_all add: Let_def drain_close_def split: list.split)

lemma feeder_has_stderr: "has_stderr (fst (feeder n (p, w))) = has_stderr p"
  by (induction n arbitrary: p)
     (simp_all add: Let_def drain_close_def split: list.split)

lemma feeder_quit: "quit (fst (feeder n (p, w))) = quit p"
  by (induction n arbitrary: p)
     (simp_all add: Let_def drain_close_def split: list.split)

lemma feeder_reaped: "reaped (child (fst (feeder n (p, w)))) = reaped (child p)"
  by (induction n arbitrary: p)
     (simp_all add: Let_def drain_close_def react_keeps split: list.split)

lemma program_stdin:
  "program (c\<lparr>stdin_closed := b\<rparr>) = program c"
  "program (c\<lparr>stdin_data := d\<rparr>) = program c"
  "program (c\<lparr>reaped := b\<rparr>) = program c"
  "program (c\<lparr>stdout_pipe := x\<rparr>) = program c"
  "program (c\<lparr>stderr_pipe := x\<rparr>) = program c"
  by (simp_all add: program_def)

lemma feeder_program: "program (child (fst (feeder n (p, w)))) = program (child p)"
  by (induction n arbitrary: p)
     (simp_all add: Let_def drain_close_def react_keeps program_stdin split: list.split)

lemma program_fields:
  "program c' = program c \<Longrightarrow>
   cpid c' = cpid c \<and> on_eof c' = on_eof c \<and> on_signal c' = on_signal c \<and>
   eof_delay c' = eof_delay c"
  by (simp add: program_def)

lemma feeder_quiescent:
  "inputsem p \<le> n \<Longrightarrow>
   \<not> feeder_alive (fst (feeder n (p, w))) \<or> inputsem (fst (feeder n (p, w))) = 0"
  by (induction n arbitrary: p)
     (simp_all add: Let_def drain_close_def split: list.split)

lemma background_eq: "background (p, w) = (fst (background (p, w)), w)"
  using feeder_world [of "inputsem p" p w]
  by (simp add: background_def prod_eq_iff)

lemma background_clock_only:
  "clock w' = clock w \<Longrightarrow> fst (background (p, w')) = fst (background (p, w))"
  using feeder_clock_only [of w' w "inputsem p" p] by (simp add: background_def)

lemma background_keeps:
  "exitstatus (fst (background (p, w))) = exitstatus p"
  "has_stdin (fst (background (p, w))) = has_stdin p"
  "quit (fst (background (p, w))) = quit p"
  "reaped (child (fst (background (p, w)))) = reaped (child p)"
  "program (child (fst (background (p, w)))) = program (child p)"
  "has_stdout (fst (background (p, w))) = has_stdout p"
  "has_stderr (fst (background (p, w))) = has_stderr p"
  by (simp_all add: background_def feeder_exitstatus feeder_has_stdin feeder_quit
        feeder_reaped feeder_program feeder_has_stdout feeder_has_stderr)

lemma background_cpid: "cpid (child (fst (background (p, w)))) = cpid (child p)"
  using background_keeps(5) [of p w] by (simp add: program_def)

lemma background_quiescent:
  "\<not> has_stdin (fst (background (p, w))) \<or> \<not> feeder_alive (fst (background (p, w))) \<or>
   inputsem (fst (background (p, w))) = 0"
  using feeder_quiescent [of p "inputsem p" w] by (auto simp add: background_def)

lemma background_idle:
  "\<not> has_stdin p \<or> \<not> feeder_alive p \<or> inputsem p = 0 \<Longrightarrow> background (p, w) = (p, w)"
  by (cases "inputsem p") (auto simp add: background_def)

subsection \<open>The program behind a process object\<close>

lemma signal_child_keeps:
  "reaped (signal_child sig t c) = reaped c" "program (signal_child sig t c) = program c"
  by (simp_all add: signal_child_def react_keeps split: option.split)

lemma os_waitpid_program:
  assumes "os_waitpid flags (p, w) = Some (r, p', w')"
  shows "program (child p') = program (child p)"
proof -
  obtain pb where bg: "background (p, w) = (pb, w)"
    using background_eq [of p w] by blast
  have k: "program (child pb) = program (child p)"
    using background_keeps(5) [of p w] bg by simp
  have "p' = pb \<or> p' = pb\<lparr>child := (child pb)\<lparr>reaped := True\<rparr>\<rparr>"
    using assms
    by (auto simp add: os_waitpid_def bg Let_def
          split: if_splits option.splits res.splits prod.splits)
  then show ?thesis
    using k by (auto simp add: program_stdin)
qed

lemma join_stdout_program:
  "join_stdout (p, w) = Some (r, p', w') \<Longrightarrow> program (child p') = program (child p)"
  by (auto simp add: join_stdout_def stdout_thread_done_def program_stdin split: option.splits)

lemma join_stderr_program:
  "join_stderr (p, w) = Some (r, p', w') \<Longrightarrow> program (child p') = program (child p)"
  by (auto simp add: join_stderr_def stderr_thread_done_def program_stdin split: option.splits)

lemma wait_finish_program:
  assumes "wait_finish st (p, w) = Some (r, p', w')"
  shows "program (child p') = program (child p)"
proof -
  define p2 where "p2 = (if has_stdin p then closeinput (p\<lparr>exitstatus := Some st\<rparr>)
                         else p\<lparr>exitstatus := Some st\<rparr>)"
  have e2: "program (child p2) = program (child p)"
    by (simp add: p2_def closeinput_def)
  have f0: "wait_finish st (p, w) =
      (case (if has_stdout p then join_stdout (p2, w) else Some (Ret (), p2, w)) of
         None \<Rightarrow> None
       | Some (Exc e, s3) \<Rightarrow> Some (Exc e, s3)
       | Some (Dead, s3) \<Rightarrow> Some (Dead, s3)
       | Some (Ret u, s3) \<Rightarrow>
          (case (if has_stderr (fst s3) then join_stderr s3 else Some (Ret (), s3)) of
                None \<Rightarrow> None
              | Some (Exc e, s4) \<Rightarrow> Some (Exc e, s4)
              | Some (Dead, s4) \<Rightarrow> Some (Dead, s4)
              | Some (Ret u, s4) \<Rightarrow> Some (Ret (Some st), s4)))"
    by (simp add: wait_finish_def Let_def p2_def closeinput_def)
  obtain r3 p3 w3 where j3:
      "(if has_stdout p then join_stdout (p2, w) else Some (Ret (), p2, w)) = Some (r3, p3, w3)"
    using assms unfolding f0
    by (cases "if has_stdout p then join_stdout (p2, w) else Some (Ret (), p2, w)") auto
  have e3: "program (child p3) = program (child p)"
    using j3 e2 join_stdout_program [of p2 w r3 p3 w3] by (auto split: if_splits)
  have f: "wait_finish st (p, w) =
      (case r3 of
         Exc e \<Rightarrow> Some (Exc e, p3, w3)
       | Dead \<Rightarrow> Some (Dead, p3, w3)
       | Ret u \<Rightarrow>
          (case (if has_stderr p3 then join_stderr (p3, w3) else Some (Ret (), p3, w3)) of
                None \<Rightarrow> None
              | Some (Exc e, s4) \<Rightarrow> Some (Exc e, s4)
              | Some (Dead, s4) \<Rightarrow> Some (Dead, s4)
              | Some (Ret u, s4) \<Rightarrow> Some (Ret (Some st), s4)))"
    unfolding f0 j3 by (simp split: res.split)
  show ?thesis
  proof (cases r3)
    case (Ret u)
    obtain r4 p4 w4 where j4:
        "(if has_stderr p3 then join_stderr (p3, w3) else Some (Ret (), p3, w3)) = Some (r4, p4, w4)"
      using assms unfolding f Ret
      by (cases "if has_stderr p3 then join_stderr (p3, w3) else Some (Ret (), p3, w3)") auto
    have e4: "program (child p4) = program (child p)"
      using j4 e3 join_stderr_program [of p3 w3 r4 p4 w4] by (auto split: if_splits)
    show ?thesis
      using assms e4 unfolding f Ret j4 by (cases r4) auto
  next
    case (Exc e)
    then show ?thesis using assms e3 unfolding f by auto
  next
    case Dead
    then show ?thesis using assms e3 unfolding f by auto
  qed
qed

lemma wait_program:
  assumes "wait flags (p, w) = Some (r, p', w')"
  shows "program (child p') = program (child p)"
proof (cases "exitstatus p")
  case (Some s0)
  then show ?thesis using assms by (simp add: wait_def)
next
  case None
  obtain r1 p1 w1 where o: "os_waitpid flags (p, w) = Some (r1, p1, w1)"
    using assms None by (cases "os_waitpid flags (p, w)") (auto simp add: wait_def)
  note k = os_waitpid_program [OF o]
  show ?thesis
  proof (cases r1)
    case (Ret v)
    obtain rpid st where v: "v = (rpid, st)" by (cases v)
    show ?thesis
      using assms None o Ret v k
      by (auto simp add: wait_def split: if_splits dest: wait_finish_program)
  next
    case (Exc e)
    then show ?thesis using assms None o k by (simp add: wait_def)
  next
    case Dead
    then show ?thesis using assms None o k by (simp add: wait_def)
  qed
qed

lemma kill_program:
  "kill sig (p, w) = (r, p', w') \<Longrightarrow> program (child p') = program (child p)"
  by (auto simp add: kill_def os_kill_def Let_def signal_child_keeps split: if_splits)

lemma with_timeout_finally_state:
  "fst (snd (with_timeout_finally g r (st, w))) = st"
  by (cases g)
     (simp add: with_timeout_finally_def Let_def signal_alarm_def signal_signal_def
        raise_SIGALRM_def split: handler.split prod.split)

lemma with_timeout_inner:
  assumes "with_timeout t f (s, w) = Some (r, s', w')"
  shows "\<exists>r0 wa w0. f (s, wa) = Some (r0, s', w0)"
proof -
  obtain g wa where en: "with_timeout_enter t w = (g, wa)"
    by (cases "with_timeout_enter t w")
  obtain r0 s0 w0 where f: "f (s, wa) = Some (r0, s0, w0)"
    using assms en by (cases "f (s, wa)") (auto simp add: with_timeout_def)
  have "s' = s0"
  proof (cases r0)
    case (Ret v)
    then have "with_timeout_finally g (Ret v) (s0, w0) = (r, s', w')"
      using assms en f by (simp add: with_timeout_def)
    then show ?thesis
      using with_timeout_finally_state [of g "Ret v" s0 w0] by simp
  next
    case (Exc e)
    then obtain rr where "with_timeout_finally g rr (s0, w0) = (r, s', w')"
      using assms en f by (simp add: with_timeout_def)
    then show ?thesis
      using with_timeout_finally_state [of g rr s0 w0] by simp
  next
    case Dead
    then show ?thesis using assms en f by (simp add: with_timeout_def)
  qed
  with f show ?thesis by blast
qed

lemma guarded_wait_program:
  assumes "with_timeout t (wait flags) (p, w) = Some (r, p', w')"
  shows "program (child p') = program (child p)"
proof -
  from with_timeout_inner [OF assms]
  obtain r0 wa w0 where "wait flags (p, wa) = Some (r0, p', w0)" by blast
  then show ?thesis by (rule wait_program)
qed

lemma terminate_sigkill_program:
  assumes "terminate_sigkill (p, w) = Some (r, p', w')"
  shows "program (child p') = program (child p)"
proof -
  obtain r1 p1 w1 where k: "kill SIGKILL (p, w) = (r1, p1, w1)"
    by (cases "kill SIGKILL (p, w)")
  note k1 = kill_program [OF k]
  show ?thesis
    using assms k k1
    by (cases r1) (auto simp add: terminate_sigkill_def dest: wait_program)
qed

lemma terminate_sigterm_program:
  assumes "terminate_sigterm g (p, w) = Some (r, p', w')"
  shows "program (child p') = program (child p)"
proof -
  obtain r1 p1 w1 where k: "kill SIGTERM (p, w) = (r1, p1, w1)"
    by (cases "kill SIGTERM (p, w)")
  note k1 = kill_program [OF k]
  show ?thesis
  proof (cases r1)
    case (Ret u)
    obtain r2 p2 w2 where g: "with_timeout g (wait 0) (p1, w1) = Some (r2, p2, w2)"
      using assms k Ret
      by (cases "with_timeout g (wait 0) (p1, w1)") (auto simp add: terminate_sigterm_def)
    note k2 = guarded_wait_program [OF g]
    show ?thesis
      using assms k Ret g k1 k2
      by (auto simp add: terminate_sigterm_def split: if_splits dest: terminate_sigkill_program)
  next
    case (Exc e)
    then show ?thesis using assms k k1 by (simp add: terminate_sigterm_def)
  next
    case Dead
    then show ?thesis using assms k k1 by (simp add: terminate_sigterm_def)
  qed
qed

lemma terminate_program:
  assumes "terminate g (p, w) = Some (r, p', w')"
  shows "program (child p') = program (child p)"
proof (cases "has_stdin p")
  case False
  then show ?thesis
    using assms by (auto simp add: terminate_def dest: terminate_sigterm_program)
next
  case True
  obtain r2 p2 w2 where g: "with_timeout g (wait 0) (closeinput p, w) = Some (r2, p2, w2)"
    using assms True
    by (cases "with_timeout g (wait 0) (closeinput p, w)") (auto simp add: terminate_def)
  have k2: "program (child p2) = program (child p)"
    using guarded_wait_program [OF g] by (simp add: closeinput_def)
  show ?thesis
    using assms True g k2
    by (auto simp add: terminate_def split: if_splits dest: terminate_sigterm_program)
qed

lemma call_program:
  assumes "call c (p, w) = Some (r, p', w')"
  shows "program (child p') = program (child p)"
proof (cases c)
  case (C_kill sig)
  then show ?thesis
    using assms by (auto split: prod.splits dest: kill_program)
next
  case (C_wait flags)
  then show ?thesis
    using assms by (auto split: option.splits dest: wait_program)
next
  case (C_terminate g)
  then show ?thesis
    using assms by (auto split: option.splits dest: terminate_program)
next
  case C_read
  then show ?thesis using assms by (auto simp add: read_def Let_def)
next
  case C_readerr
  then show ?thesis using assms by (auto simp add: readerr_def Let_def)
next
  case C_readboth
  then show ?thesis using assms by (auto simp add: readboth_def Let_def)
next
  case (C_write data)
  then show ?thesis
    using assms by (auto simp add: write_proc_def split: sum.splits if_splits)
next
  case C_closeinput
  then show ?thesis using assms by (auto simp add: closeinput_def)
qed

subsection \<open>The registry's identifiers\<close>

lemma pm_forward_unknown:
  "procs m i = None \<Longrightarrow> pm_forward i c (m, w) = Some (Exc (KeyError i), m, w)"
  by (simp add: pm_forward_def)

lemma pm_forward_keeps:
  assumes "pm_forward i c (m, w) = Some (r, m', w')"
  shows "last_id m' = last_id m \<and> dom (procs m') = dom (procs m)"
proof (cases "procs m i")
  case None
  then show ?thesis using assms by (simp add: pm_forward_def)
next
  case (Some p)
  then show ?thesis
    using assms by (auto simp add: pm_forward_def split: option.splits if_splits)
qed

lemma pm_reap_keeps:
  assumes "pm_reap i (m, w) = Some (r, m', w')"
  shows "last_id m' = last_id m \<and> dom (procs m') \<subseteq> dom (procs m) \<and>
         (\<forall>v. r = Ret v \<longrightarrow> procs m' i = None \<and> procs m i \<noteq> None)"
proof (cases "procs m i")
  case None
  then have "pm_reap i (m, w) = Some (Exc (KeyError i), m, w)"
    by (simp add: pm_reap_def pm_wait_def pm_forward_unknown)
  with assms show ?thesis by auto
next
  case (Some p)
  have in_dom: "procs m i \<noteq> None" using Some by simp
  from assms obtain r1 m1 w1 where
    w1: "pm_wait i WNOHANG (m, w) = Some (r1, m1, w1)"
    by (cases "pm_wait i WNOHANG (m, w)") (auto simp add: pm_reap_def)
  have k1: "last_id m1 = last_id m \<and> dom (procs m1) = dom (procs m)"
    using w1 unfolding pm_wait_def by (rule pm_forward_keeps)
  show ?thesis
  proof (cases r1)
    case (Exc e)
    then show ?thesis using assms w1 k1 by (auto simp add: pm_reap_def)
  next
    case Dead
    then show ?thesis using assms w1 k1 by (auto simp add: pm_reap_def)
  next
    case (Ret v1)
    let ?second = "if v1 = V_none then pm_kill i SIGKILL (m1, w1) else Some (Ret V_none, m1, w1)"
    from assms w1 Ret obtain r2 m2 w2 where
      w2: "?second = Some (r2, m2, w2)"
      by (cases ?second) (auto simp add: pm_reap_def)
    have k2: "last_id m2 = last_id m1 \<and> dom (procs m2) = dom (procs m1)"
    proof (cases "v1 = V_none")
      case True
      then have "pm_forward i (C_kill SIGKILL) (m1, w1) = Some (r2, m2, w2)"
        using w2 by (simp add: pm_kill_def)
      then show ?thesis by (rule pm_forward_keeps)
    next
      case False
      then show ?thesis using w2 by simp
    qed
    show ?thesis
    proof (cases r2)
      case (Exc e)
      then show ?thesis using assms w1 Ret w2 k1 k2 by (auto simp add: pm_reap_def)
    next
      case Dead
      then show ?thesis using assms w1 Ret w2 k1 k2 by (auto simp add: pm_reap_def)
    next
      case r2: (Ret v2)
      from assms w1 Ret w2 r2 obtain r3 m3 w3 where
        w3: "pm_wait i 0 (m2, w2) = Some (r3, m3, w3)"
        by (cases "pm_wait i 0 (m2, w2)") (auto simp add: pm_reap_def)
      have k3: "last_id m3 = last_id m2 \<and> dom (procs m3) = dom (procs m2)"
        using w3 unfolding pm_wait_def by (rule pm_forward_keeps)
      show ?thesis
      proof (cases r3)
        case (Exc e)
        then show ?thesis using assms w1 Ret w2 r2 w3 k1 k2 k3 by (auto simp add: pm_reap_def)
      next
        case Dead
        then show ?thesis using assms w1 Ret w2 r2 w3 k1 k2 k3 by (auto simp add: pm_reap_def)
      next
        case r3: (Ret v3)
        from assms w1 Ret w2 r2 w3 r3
        have fin: "(case procs m3 i of
                 None \<Rightarrow> Some (Exc (KeyError i), m3, w3)
               | Some p \<Rightarrow> Some (Ret V_none, m3\<lparr>procs := (procs m3)(i := None)\<rparr>, w3)) =
              Some (r, m', w')"
          by (simp add: pm_reap_def)
        show ?thesis
        proof (cases "procs m3 i")
          case None
          then show ?thesis using fin k1 k2 k3 by auto
        next
          case (Some p3)
          then have "m' = m3\<lparr>procs := (procs m3)(i := None)\<rparr>"
            using fin by simp
          then show ?thesis using k1 k2 k3 in_dom by auto
        qed
      qed
    qed
  qed
qed

lemma pm_call_step:
  assumes "pm_call c (m, w) = Some (r, m', w')"
  shows "issued [(c, r)] = [last_id m + 1..last_id m'] \<and> last_id m \<le> last_id m' \<and>
         dom (procs m') \<subseteq> dom (procs m) \<union> {last_id m + 1..last_id m'}"
proof (cases c)
  case (Start spawned)
  then show ?thesis
    using assms by (cases spawned) (auto simp add: pm_start_def Let_def)
next
  case (P_kill i sig)
  then have "pm_forward i (C_kill sig) (m, w) = Some (r, m', w')"
    using assms by (simp add: pm_kill_def)
  from pm_forward_keeps [OF this] P_kill show ?thesis by simp
next
  case (P_terminate i g)
  then have "pm_forward i (C_terminate g) (m, w) = Some (r, m', w')"
    using assms by (simp add: pm_terminate_def)
  from pm_forward_keeps [OF this] P_terminate show ?thesis by simp
next
  case (P_write i data)
  then have "pm_forward i (C_write data) (m, w) = Some (r, m', w')"
    using assms by (simp add: pm_write_def)
  from pm_forward_keeps [OF this] P_write show ?thesis by simp
next
  case (P_closeinput i)
  then have "pm_forward i C_closeinput (m, w) = Some (r, m', w')"
    using assms by (simp add: pm_closeinput_def)
  from pm_forward_keeps [OF this] P_closeinput show ?thesis by simp
next
  case (P_read i)
  then have "pm_forward i C_read (m, w) = Some (r, m', w')"
    using assms by (simp add: pm_read_def)
  from pm_forward_keeps [OF this] P_read show ?thesis by simp
next
  case (P_readerr i)
  then have "pm_forward i C_readerr (m, w) = Some (r, m', w')"
    using assms by (simp add: pm_readerr_def)
  from pm_forward_keeps [OF this] P_readerr show ?thesis by simp
next
  case (P_readboth i)
  then have "pm_forward i C_readboth (m, w) = Some (r, m', w')"
    using assms by (simp add: pm_readboth_def)
  from pm_forward_keeps [OF this] P_readboth show ?thesis by simp
next
  case (P_wait i flags)
  then have "pm_forward i (C_wait flags) (m, w) = Some (r, m', w')"
    using assms by (simp add: pm_wait_def)
  from pm_forward_keeps [OF this] P_wait show ?thesis by simp
next
  case (P_reap i)
  then have "pm_reap i (m, w) = Some (r, m', w')"
    using assms by simp
  from pm_reap_keeps [OF this] P_reap show ?thesis by auto
qed

lemma issued_Cons: "issued (cr # rs) = issued [cr] @ issued rs"
  by (cases "(cr # rs)" rule: issued.cases) simp_all

lemma upto_join: "a \<le> b \<Longrightarrow> b \<le> c \<Longrightarrow> [a + 1..b] @ [b + 1..c] = [a + 1..(c::int)]"
proof -
  assume ab: "a \<le> b" and bc: "b \<le> c"
  show ?thesis
  proof (cases "a = b")
    case True
    then show ?thesis by simp
  next
    case False
    then have "a + 1 \<le> b" using ab by simp
    from upto_split2 [OF this bc] show ?thesis by simp
  qed
qed

lemma pm_run_ids:
  "pm_run cs (m, w) = Some (rs, m', w') \<Longrightarrow>
   issued rs = [last_id m + 1..last_id m'] \<and> last_id m \<le> last_id m' \<and>
   dom (procs m') \<subseteq> dom (procs m) \<union> {last_id m + 1..last_id m'}"
proof (induction cs arbitrary: m w rs)
  case Nil
  then show ?case by simp
next
  case (Cons c cs)
  from Cons.prems obtain r m1 w1 where c1: "pm_call c (m, w) = Some (r, m1, w1)"
    by (cases "pm_call c (m, w)") auto
  note s1 = pm_call_step [OF c1]
  show ?case
  proof (cases "r = Dead")
    case True
    then have "rs = [(c, r)]" and "m' = m1"
      using Cons.prems c1 by simp_all
    then show ?thesis using s1 by simp
  next
    case False
    from Cons.prems c1 False obtain rs2 where
      c2: "pm_run cs (m1, w1) = Some (rs2, m', w')" and rs: "rs = (c, r) # rs2"
      by (cases r; cases "pm_run cs (m1, w1)") auto
    note s2 = Cons.IH [OF c2]
    have "issued rs = issued [(c, r)] @ issued rs2"
      unfolding rs by (rule issued_Cons)
    also have "\<dots> = [last_id m + 1..last_id m1] @ [last_id m1 + 1..last_id m']"
      using s1 s2 by simp
    also have "\<dots> = [last_id m + 1..last_id m']"
      using s1 s2 by (simp add: upto_join)
    finally have i: "issued rs = [last_id m + 1..last_id m']" .
    have d: "dom (procs m') \<subseteq> dom (procs m) \<union> {last_id m + 1..last_id m'}"
    proof
      fix x assume "x \<in> dom (procs m')"
      then have "x \<in> dom (procs m1) \<or> x \<in> {last_id m1 + 1..last_id m'}"
        using s2 by auto
      then show "x \<in> dom (procs m) \<union> {last_id m + 1..last_id m'}"
        using s1 s2 by auto
    qed
    from i d s1 s2 show ?thesis by simp
  qed
qed

lemma pm_forward_other:
  assumes "pm_forward i c (m, w) = Some (r, m', w')" and "k \<noteq> i"
  shows "procs m' k = procs m k"
proof (cases "procs m i")
  case None
  then show ?thesis using assms by (simp add: pm_forward_def)
next
  case (Some p)
  then show ?thesis
    using assms by (auto simp add: pm_forward_def split: option.splits)
qed

lemma pm_forward_program:
  assumes "pm_forward i c (m, w) = Some (r, m', w')" and "procs m' k = Some q"
  shows "\<exists>q0. procs m k = Some q0 \<and> program (child q) = program (child q0)"
proof (cases "procs m i")
  case None
  then show ?thesis using assms by (simp add: pm_forward_def)
next
  case (Some p)
  obtain p1 where c: "call c (p, w) = Some (r, p1, w')"
      and m': "m' = m\<lparr>procs := (procs m)(i \<mapsto> p1)\<rparr>"
    using assms(1) Some by (auto simp add: pm_forward_def split: option.splits)
  show ?thesis
  proof (cases "k = i")
    case True
    then have "q = p1" using assms(2) m' by simp
    then show ?thesis
      using call_program [OF c] Some True by simp
  next
    case False
    then show ?thesis using assms(2) m' by simp
  qed
qed

lemma pm_reap_rel:
  assumes reap: "pm_reap i (m, w) = Some (r, m', w')"
      and refl: "\<And>a. R a a"
      and trans: "\<And>a b c. R a b \<Longrightarrow> R b c \<Longrightarrow> R a c"
      and fw: "\<And>c a w r b w'. pm_forward i c (a, w) = Some (r, b, w') \<Longrightarrow> R a b"
      and del: "\<And>a. R a (a\<lparr>procs := (procs a)(i := None)\<rparr>)"
  shows "R m m'"
proof (cases "procs m i")
  case None
  then have "pm_reap i (m, w) = Some (Exc (KeyError i), m, w)"
    by (simp add: pm_reap_def pm_wait_def pm_forward_unknown)
  with reap show ?thesis by (simp add: refl)
next
  case (Some p)
  from reap obtain r1 m1 w1 where
    w1: "pm_wait i WNOHANG (m, w) = Some (r1, m1, w1)"
    by (cases "pm_wait i WNOHANG (m, w)") (auto simp add: pm_reap_def)
  have k1: "R m m1"
    using w1 unfolding pm_wait_def by (rule fw)
  show ?thesis
  proof (cases r1)
    case (Exc e)
    then show ?thesis using reap w1 k1 by (auto simp add: pm_reap_def)
  next
    case Dead
    then show ?thesis using reap w1 k1 by (auto simp add: pm_reap_def)
  next
    case (Ret v1)
    let ?second = "if v1 = V_none then pm_kill i SIGKILL (m1, w1) else Some (Ret V_none, m1, w1)"
    from reap w1 Ret obtain r2 m2 w2 where
      w2: "?second = Some (r2, m2, w2)"
      by (cases ?second) (auto simp add: pm_reap_def)
    have "R m1 m2"
    proof (cases "v1 = V_none")
      case True
      then have "pm_forward i (C_kill SIGKILL) (m1, w1) = Some (r2, m2, w2)"
        using w2 by (simp add: pm_kill_def)
      then show ?thesis by (rule fw)
    next
      case False
      then show ?thesis using w2 by (simp add: refl)
    qed
    with k1 have k2: "R m m2" by (rule trans)
    show ?thesis
    proof (cases r2)
      case (Exc e)
      then show ?thesis using reap w1 Ret w2 k2 by (auto simp add: pm_reap_def)
    next
      case Dead
      then show ?thesis using reap w1 Ret w2 k2 by (auto simp add: pm_reap_def)
    next
      case r2: (Ret v2)
      from reap w1 Ret w2 r2 obtain r3 m3 w3 where
        w3: "pm_wait i 0 (m2, w2) = Some (r3, m3, w3)"
        by (cases "pm_wait i 0 (m2, w2)") (auto simp add: pm_reap_def)
      have "R m2 m3"
        using w3 unfolding pm_wait_def by (rule fw)
      with k2 have k3: "R m m3" by (rule trans)
      show ?thesis
      proof (cases r3)
        case (Exc e)
        then show ?thesis using reap w1 Ret w2 r2 w3 k3 by (auto simp add: pm_reap_def)
      next
        case Dead
        then show ?thesis using reap w1 Ret w2 r2 w3 k3 by (auto simp add: pm_reap_def)
      next
        case r3: (Ret v3)
        from reap w1 Ret w2 r2 w3 r3
        have fin: "(case procs m3 i of
                 None \<Rightarrow> Some (Exc (KeyError i), m3, w3)
               | Some p \<Rightarrow> Some (Ret V_none, m3\<lparr>procs := (procs m3)(i := None)\<rparr>, w3)) =
              Some (r, m', w')"
          by (simp add: pm_reap_def)
        show ?thesis
        proof (cases "procs m3 i")
          case None
          then show ?thesis using fin k3 by auto
        next
          case (Some p3)
          then have "m' = m3\<lparr>procs := (procs m3)(i := None)\<rparr>"
            using fin by simp
          then show ?thesis using k3 del [of m3] trans by blast
        qed
      qed
    qed
  qed
qed

lemma pm_reap_other:
  assumes "pm_reap i (m, w) = Some (r, m', w')" and "k \<noteq> i"
  shows "procs m' k = procs m k"
proof -
  have "(\<lambda>a b. procs b k = procs a k) m m'"
  proof (rule pm_reap_rel [OF assms(1)])
    fix c a w r b w'
    assume "pm_forward i c (a, w) = Some (r, b, w')"
    from pm_forward_other [OF this assms(2)] show "procs b k = procs a k" .
  next
    fix a :: registry
    show "procs (a\<lparr>procs := (procs a)(i := None)\<rparr>) k = procs a k"
      using assms(2) by simp
  qed simp_all
  then show ?thesis .
qed

lemma pm_reap_program:
  assumes "pm_reap i (m, w) = Some (r, m', w')" and "procs m' k = Some q"
  shows "\<exists>q0. procs m k = Some q0 \<and> program (child q) = program (child q0)"
proof -
  let ?R = "\<lambda>a b. \<forall>q. procs b k = Some q \<longrightarrow>
              (\<exists>q0. procs a k = Some q0 \<and> program (child q) = program (child q0))"
  have "?R m m'"
  proof (rule pm_reap_rel [OF assms(1)])
    fix a :: registry
    show "?R a a" by simp
  next
    fix a b c :: registry
    assume ab: "?R a b" and bc: "?R b c"
    show "?R a c"
    proof (intro allI impI)
      fix q assume "procs c k = Some q"
      with bc obtain q1 where q1: "procs b k = Some q1" "program (child q) = program (child q1)"
        by blast
      with ab obtain q0 where "procs a k = Some q0" "program (child q1) = program (child q0)"
        by blast
      with q1 show "\<exists>q0. procs a k = Some q0 \<and> program (child q) = program (child q0)"
        by simp
    qed
  next
    fix c a w r b w'
    assume "pm_forward i c (a, w) = Some (r, b, w')"
    then show "?R a b"
      by (blast dest: pm_forward_program)
  next
    fix a :: registry
    show "?R a (a\<lparr>procs := (procs a)(i := None)\<rparr>)"
      by (auto split: if_splits)
  qed
  with assms(2) show ?thesis by blast
qed

lemma pm_call_other:
  assumes "pm_call rq (m, w) = Some (r, m', w')" and "target rq \<noteq> Some k"
      and "k \<le> last_id m"
  shows "procs m' k = procs m k"
proof (cases rq)
  case (Start spawned)
  then show ?thesis
    using assms by (cases spawned) (auto simp add: pm_start_def Let_def)
next
  case (P_kill i sig)
  then show ?thesis
    using assms by (auto simp add: pm_kill_def dest: pm_forward_other)
next
  case (P_terminate i g)
  then show ?thesis
    using assms by (auto simp add: pm_terminate_def dest: pm_forward_other)
next
  case (P_write i data)
  then show ?thesis
    using assms by (auto simp add: pm_write_def dest: pm_forward_other)
next
  case (P_closeinput i)
  then show ?thesis
    using assms by (auto simp add: pm_closeinput_def dest: pm_forward_other)
next
  case (P_read i)
  then show ?thesis
    using assms by (auto simp add: pm_read_def dest: pm_forward_other)
next
  case (P_readerr i)
  then show ?thesis
    using assms by (auto simp add: pm_readerr_def dest: pm_forward_other)
next
  case (P_readboth i)
  then show ?thesis
    using assms by (auto simp add: pm_readboth_def dest: pm_forward_other)
next
  case (P_wait i flags)
  then show ?thesis
    using assms by (auto simp add: pm_wait_def dest: pm_forward_other)
next
  case (P_reap i)
  then show ?thesis
    using assms by (auto dest: pm_reap_other)
qed

lemma pm_call_program:
  assumes "pm_call rq (m, w) = Some (r, m', w')" and "procs m' k = Some q"
  shows "(\<exists>c. started [(rq, r)] k = Some c \<and> program (child q) = program c) \<or>
         (\<exists>q0. procs m k = Some q0 \<and> program (child q) = program (child q0))"
proof (cases rq)
  case (Start spawned)
  show ?thesis
  proof (cases spawned)
    case (Inl e)
    then show ?thesis
      using assms Start by (auto simp add: pm_start_def)
  next
    case (Inr c)
    then have r: "r = Ret (V_int (last_id m + 1))"
        and m': "m' = m\<lparr>last_id := last_id m + 1,
                           procs := (procs m)(last_id m + 1 \<mapsto> Process_init True True True c)\<rparr>"
      using assms(1) Start by (auto simp add: pm_start_def Let_def)
    show ?thesis
    proof (cases "k = last_id m + 1")
      case True
      then have "q = Process_init True True True c"
        using assms(2) m' by simp
      then have "program (child q) = program c"
        by (simp add: Process_init_def)
      then show ?thesis
        using Start Inr r True by simp
    next
      case False
      then show ?thesis using assms(2) m' by simp
    qed
  qed
next
  case (P_kill i sig)
  then show ?thesis
    using assms by (auto simp add: pm_kill_def dest: pm_forward_program)
next
  case (P_terminate i g)
  then show ?thesis
    using assms by (auto simp add: pm_terminate_def dest: pm_forward_program)
next
  case (P_write i data)
  then show ?thesis
    using assms by (auto simp add: pm_write_def dest: pm_forward_program)
next
  case (P_closeinput i)
  then show ?thesis
    using assms by (auto simp add: pm_closeinput_def dest: pm_forward_program)
next
  case (P_read i)
  then show ?thesis
    using assms by (auto simp add: pm_read_def dest: pm_forward_program)
next
  case (P_readerr i)
  then show ?thesis
    using assms by (auto simp add: pm_readerr_def dest: pm_forward_program)
next
  case (P_readboth i)
  then show ?thesis
    using assms by (auto simp add: pm_readboth_def dest: pm_forward_program)
next
  case (P_wait i flags)
  then show ?thesis
    using assms by (auto simp add: pm_wait_def dest: pm_forward_program)
next
  case (P_reap i)
  then show ?thesis
    using assms by (auto dest: pm_reap_program)
qed

lemma started_Cons:
  "started (cr # rs) k = (case started [cr] k of Some c \<Rightarrow> Some c | None \<Rightarrow> started rs k)"
  by (cases "(cr # rs, k)" rule: started.cases) simp_all

lemma started_single: "started [cr] k = Some c \<Longrightarrow> k \<in> set (issued [cr])"
  by (cases "([cr], k)" rule: started.cases) (auto split: if_splits)

lemma started_issued: "started rs k = Some c \<Longrightarrow> k \<in> set (issued rs)"
proof (induction rs)
  case Nil
  then show ?case by simp
next
  case (Cons cr rs)
  have i: "issued (cr # rs) = issued [cr] @ issued rs"
    by (rule issued_Cons)
  show ?case
  proof (cases "started [cr] k")
    case None
    then have "started rs k = Some c"
      using Cons.prems started_Cons [of cr rs k] by simp
    from Cons.IH [OF this] show ?thesis
      unfolding i by simp
  next
    case (Some c')
    from started_single [OF this] show ?thesis
      unfolding i by simp
  qed
qed

lemma pm_run_programs:
  "pm_run cs (m, w) = Some (rs, m', w') \<Longrightarrow> procs m' k = Some q \<Longrightarrow>
   (\<exists>c. started rs k = Some c \<and> program (child q) = program c) \<or>
   (\<exists>q0. procs m k = Some q0 \<and> program (child q) = program (child q0))"
proof (induction cs arbitrary: m w rs)
  case Nil
  then show ?case by simp
next
  case (Cons c cs)
  from Cons.prems obtain r m1 w1 where c1: "pm_call c (m, w) = Some (r, m1, w1)"
    by (cases "pm_call c (m, w)") auto
  note s1 = pm_call_step [OF c1]
  show ?case
  proof (cases "r = Dead")
    case True
    then have "rs = [(c, r)]" and "m' = m1"
      using Cons.prems c1 by simp_all
    then show ?thesis
      using pm_call_program [OF c1, of k q] Cons.prems(2) by simp
  next
    case False
    from Cons.prems c1 False obtain rs2 where
      c2: "pm_run cs (m1, w1) = Some (rs2, m', w')" and rs: "rs = (c, r) # rs2"
      by (cases r; cases "pm_run cs (m1, w1)") auto
    note s2 = pm_run_ids [OF c2]
    have st: "started rs k = (case started [(c, r)] k of Some c \<Rightarrow> Some c | None \<Rightarrow> started rs2 k)"
      unfolding rs by (rule started_Cons)
    from Cons.IH [OF c2 Cons.prems(2)]
    show ?thesis
    proof
      assume "\<exists>c'. started rs2 k = Some c' \<and> program (child q) = program c'"
      then obtain c' where a: "started rs2 k = Some c'" "program (child q) = program c'"
        by blast
      have "k \<in> set (issued rs2)"
        using a(1) by (rule started_issued)
      then have "last_id m1 < k"
        using s2 by simp
      then have "k \<notin> set (issued [(c, r)])"
        using s1 by simp
      then have "started [(c, r)] k = None"
        using started_issued [of "[(c, r)]" k] by (cases "started [(c, r)] k") auto
      then show ?thesis
        using a st by simp
    next
      assume "\<exists>q1. procs m1 k = Some q1 \<and> program (child q) = program (child q1)"
      then obtain q1 where b: "procs m1 k = Some q1" "program (child q) = program (child q1)"
        by blast
      from pm_call_program [OF c1 b(1)]
      show ?thesis
      proof
        assume "\<exists>c0. started [(c, r)] k = Some c0 \<and> program (child q1) = program c0"
        then show ?thesis using st b(2) by auto
      next
        assume "\<exists>q0. procs m k = Some q0 \<and> program (child q1) = program (child q0)"
        then show ?thesis using b(2) by auto
      qed
    qed
  qed
qed

text \<open>
  Claim C8. In every run of calls on a new registry, the ids returned by the
  successful \<^verbatim>\<open>start\<close> calls are exactly 1, 2, ..., \<open>last_id\<close> in this order,
  strictly increasing, whatever calls (reaps included) come in between, only issued
  ids are in the dictionary, and the process found under an id is the one that the
  \<^verbatim>\<open>start\<close> call which returned this id spawned: it has that child's pid and
  behaviour. After a successful \<^verbatim>\<open>reap\<close> of an id, in every further run the id
  stays absent from the dictionary and is never returned by \<^verbatim>\<open>start\<close> again. Each
  of the nine operations on an id that is not in the dictionary (never issued, or
  reaped) raises KeyError for that id and changes nothing. A call that does not name
  an id issued so far (a \<^verbatim>\<open>start\<close>, or any operation on another id, \<^verbatim>\<open>reap\<close>
  included) leaves the entry of that id exactly as it is; and \<^verbatim>\<open>start\<close> binds the
  next id, returned, to the new process object of the child it spawned.
\<close>

theorem registry_ids_increase_and_stay_reaped:
  "(pm_run cs (ProcessManager_init, w) = Some (rs, m, w') \<longrightarrow>
      issued rs = [1..last_id m] \<and> sorted_wrt (<) (issued rs) \<and>
      dom (procs m) \<subseteq> {1..last_id m} \<and>
      (\<forall>k q. procs m k = Some q \<longrightarrow>
         (\<exists>c. started rs k = Some c \<and> program (child q) = program c))) \<and>
   (dom (procs m0) \<subseteq> {1..last_id m0} \<and> pm_reap i (m0, w0) = Some (Ret v, m1, w1) \<and>
    pm_run cs2 (m1, w1) = Some (rs2, m2, w2) \<longrightarrow>
      procs m1 i = None \<and> procs m2 i = None \<and> i \<notin> set (issued rs2)) \<and>
   (procs m3 j = None \<longrightarrow>
      pm_kill j sig (m3, w3) = Some (Exc (KeyError j), m3, w3) \<and>
      pm_terminate j g (m3, w3) = Some (Exc (KeyError j), m3, w3) \<and>
      pm_write j data (m3, w3) = Some (Exc (KeyError j), m3, w3) \<and>
      pm_closeinput j (m3, w3) = Some (Exc (KeyError j), m3, w3) \<and>
      pm_read j (m3, w3) = Some (Exc (KeyError j), m3, w3) \<and>
      pm_readerr j (m3, w3) = Some (Exc (KeyError j), m3, w3) \<and>
      pm_readboth j (m3, w3) = Some (Exc (KeyError j), m3, w3) \<and>
      pm_wait j flags (m3, w3) = Some (Exc (KeyError j), m3, w3) \<and>
      pm_reap j (m3, w3) = Some (Exc (KeyError j), m3, w3)) \<and>
   (pm_call rq (m4, w4) = Some (r4, m5, w5) \<and> target rq \<noteq> Some k4 \<and> k4 \<le> last_id m4 \<longrightarrow>
      procs m5 k4 = procs m4 k4) \<and>
   pm_start (Inr c5) (m6, w6) =
     (Ret (last_id m6 + 1),
      m6\<lparr>last_id := last_id m6 + 1,
         procs := (procs m6)(last_id m6 + 1 \<mapsto> Process_init True True True c5)\<rparr>,
      w6)"
proof -
  have a: "pm_run cs (ProcessManager_init, w) = Some (rs, m, w') \<longrightarrow>
      issued rs = [1..last_id m] \<and> sorted_wrt (<) (issued rs) \<and>
      dom (procs m) \<subseteq> {1..last_id m} \<and>
      (\<forall>k q. procs m k = Some q \<longrightarrow>
         (\<exists>c. started rs k = Some c \<and> program (child q) = program c))"
  proof
    assume run: "pm_run cs (ProcessManager_init, w) = Some (rs, m, w')"
    from pm_run_ids [OF run]
    have i: "issued rs = [1..last_id m]" and d: "dom (procs m) \<subseteq> {1..last_id m}"
      by (simp_all add: ProcessManager_init_def)
    have s: "sorted_wrt (<) (issued rs)"
      unfolding i by simp
    have p: "\<forall>k q. procs m k = Some q \<longrightarrow>
         (\<exists>c. started rs k = Some c \<and> program (child q) = program c)"
    proof (intro allI impI)
      fix k q assume "procs m k = Some q"
      from pm_run_programs [OF run this]
      show "\<exists>c. started rs k = Some c \<and> program (child q) = program c"
        by (simp add: ProcessManager_init_def)
    qed
    from i s d p show "issued rs = [1..last_id m] \<and> sorted_wrt (<) (issued rs) \<and>
      dom (procs m) \<subseteq> {1..last_id m} \<and>
      (\<forall>k q. procs m k = Some q \<longrightarrow>
         (\<exists>c. started rs k = Some c \<and> program (child q) = program c))"
      by simp
  qed
  have b: "dom (procs m0) \<subseteq> {1..last_id m0} \<and> pm_reap i (m0, w0) = Some (Ret v, m1, w1) \<and>
    pm_run cs2 (m1, w1) = Some (rs2, m2, w2) \<longrightarrow>
      procs m1 i = None \<and> procs m2 i = None \<and> i \<notin> set (issued rs2)"
  proof
    assume h: "dom (procs m0) \<subseteq> {1..last_id m0} \<and> pm_reap i (m0, w0) = Some (Ret v, m1, w1) \<and>
      pm_run cs2 (m1, w1) = Some (rs2, m2, w2)"
    then have reap: "pm_reap i (m0, w0) = Some (Ret v, m1, w1)"
      and run: "pm_run cs2 (m1, w1) = Some (rs2, m2, w2)"
      and ok: "dom (procs m0) \<subseteq> {1..last_id m0}"
      by simp_all
    from pm_reap_keeps [OF reap]
    have l1: "last_id m1 = last_id m0" and gone: "procs m1 i = None" and was: "procs m0 i \<noteq> None"
      by simp_all
    have le: "i \<le> last_id m1"
      using was ok l1 by auto
    from pm_run_ids [OF run]
    have i2: "issued rs2 = [last_id m1 + 1..last_id m2]"
      and d2: "dom (procs m2) \<subseteq> dom (procs m1) \<union> {last_id m1 + 1..last_id m2}"
      by simp_all
    have "i \<notin> dom (procs m2)"
      using d2 gone le by auto
    moreover have "i \<notin> set (issued rs2)"
      unfolding i2 using le by simp
    ultimately show "procs m1 i = None \<and> procs m2 i = None \<and> i \<notin> set (issued rs2)"
      using gone by auto
  qed
  have c: "procs m3 j = None \<longrightarrow>
      pm_kill j sig (m3, w3) = Some (Exc (KeyError j), m3, w3) \<and>
      pm_terminate j g (m3, w3) = Some (Exc (KeyError j), m3, w3) \<and>
      pm_write j data (m3, w3) = Some (Exc (KeyError j), m3, w3) \<and>
      pm_closeinput j (m3, w3) = Some (Exc (KeyError j), m3, w3) \<and>
      pm_read j (m3, w3) = Some (Exc (KeyError j), m3, w3) \<and>
      pm_readerr j (m3, w3) = Some (Exc (KeyError j), m3, w3) \<and>
      pm_readboth j (m3, w3) = Some (Exc (KeyError j), m3, w3) \<and>
      pm_wait j flags (m3, w3) = Some (Exc (KeyError j), m3, w3) \<and>
      pm_reap j (m3, w3) = Some (Exc (KeyError j), m3, w3)"
    by (simp add: pm_kill_def pm_terminate_def pm_write_def pm_closeinput_def pm_read_def
          pm_readerr_def pm_readboth_def pm_wait_def pm_reap_def pm_forward_unknown)
  have d: "pm_call rq (m4, w4) = Some (r4, m5, w5) \<and> target rq \<noteq> Some k4 \<and> k4 \<le> last_id m4 \<longrightarrow>
      procs m5 k4 = procs m4 k4"
    by (blast dest: pm_call_other)
  have e: "pm_start (Inr c5) (m6, w6) =
     (Ret (last_id m6 + 1),
      m6\<lparr>last_id := last_id m6 + 1,
         procs := (procs m6)(last_id m6 + 1 \<mapsto> Process_init True True True c5)\<rparr>,
      w6)"
    by (simp add: pm_start_def Let_def)
  from a b c d e show ?thesis
    by (intro conjI)
qed

theorem registry_ids_increase_and_stay_reaped_witness:
  "(\<exists>rs m w'.
      pm_run [Start (Inr c_ex), Start (Inl (OSError 2)), Start (Inr (c_ex\<lparr>cpid := 4243\<rparr>)),
              P_reap 1, Start (Inr c_ex), P_read 1] (ProcessManager_init, w_ex) =
        Some (rs, m, w') \<and>
      map snd rs = [Ret (V_int 1), Exc (OSError 2), Ret (V_int 2), Ret V_none, Ret (V_int 3),
                    Exc (KeyError 1)] \<and>
      issued rs = [1, 2, 3] \<and>
      (\<exists>q. procs m 2 = Some q \<and> cpid (child q) = 4243)) \<and>
   (\<exists>v m1 w1 rs2 m2 w2.
      pm_reap 1 (\<lparr>last_id = 1, procs = [1 \<mapsto> p_ex]\<rparr>, w_ex) = Some (Ret v, m1, w1) \<and>
      pm_run [Start (Inr c_ex), P_wait 1 0] (m1, w1) = Some (rs2, m2, w2) \<and>
      procs m2 1 = None \<and> 1 \<notin> set (issued rs2)) \<and>
   pm_read 7 (ProcessManager_init, w_ex) = Some (Exc (KeyError 7), ProcessManager_init, w_ex) \<and>
   (\<exists>r m5 w5.
      pm_call (P_reap 1)
        (\<lparr>last_id = 2, procs = [1 \<mapsto> p_ex, 2 \<mapsto> p_ex\<lparr>child := c_ex\<lparr>cpid := 4243\<rparr>\<rparr>]\<rparr>, w_ex) =
        Some (r, m5, w5) \<and>
      procs m5 2 = Some (p_ex\<lparr>child := c_ex\<lparr>cpid := 4243\<rparr>\<rparr>))"
proof -
  let ?cs = "[Start (Inr c_ex), Start (Inl (OSError 2)), Start (Inr (c_ex\<lparr>cpid := 4243\<rparr>)),
              P_reap 1, Start (Inr c_ex), P_read 1]"
  have "case pm_run ?cs (ProcessManager_init, w_ex) of
          None \<Rightarrow> False
        | Some (rs, m, w') \<Rightarrow>
            map snd rs = [Ret (V_int 1), Exc (OSError 2), Ret (V_int 2), Ret V_none,
                          Ret (V_int 3), Exc (KeyError 1)] \<and> last_id m = 3 \<and>
            procs m 2 \<noteq> None \<and> started rs 2 = Some (c_ex\<lparr>cpid := 4243\<rparr>)"
    by code_simp
  then obtain rs m w' where
    run: "pm_run ?cs (ProcessManager_init, w_ex) = Some (rs, m, w')"
    and out: "map snd rs = [Ret (V_int 1), Exc (OSError 2), Ret (V_int 2), Ret V_none,
                          Ret (V_int 3), Exc (KeyError 1)]"
    and last: "last_id m = 3"
    and there: "procs m 2 \<noteq> None"
    and st2: "started rs 2 = Some (c_ex\<lparr>cpid := 4243\<rparr>)"
    by (auto simp del: pm_run.simps split: option.splits)
  from there obtain q where q: "procs m 2 = Some q"
    by auto
  have a: "pm_run ?cs (ProcessManager_init, w_ex) = Some (rs, m, w') \<longrightarrow>
      issued rs = [1..last_id m] \<and> sorted_wrt (<) (issued rs) \<and>
      dom (procs m) \<subseteq> {1..last_id m} \<and>
      (\<forall>k q. procs m k = Some q \<longrightarrow>
         (\<exists>c. started rs k = Some c \<and> program (child q) = program c))"
    using registry_ids_increase_and_stay_reaped [of ?cs w_ex rs m w'] by (rule conjunct1)
  then have "\<exists>c. started rs 2 = Some c \<and> program (child q) = program c"
    using run q by blast
  then have "program (child q) = program (c_ex\<lparr>cpid := 4243\<rparr>)"
    using st2 by simp
  then have pid: "cpid (child q) = 4243"
    by (simp add: program_def)
  have "issued rs = [1..last_id m]"
    using a run by blast
  then have iss: "issued rs = [1, 2, 3]"
    unfolding last by (simp add: upto.simps)
  let ?m0 = "\<lparr>last_id = 1, procs = [1 \<mapsto> p_ex]\<rparr>"
  have ok: "dom (procs ?m0) \<subseteq> {1..last_id ?m0}"
    by simp
  have "case pm_reap 1 (?m0, w_ex) of
          Some (Ret v, m1, w1) \<Rightarrow>
            (case pm_run [Start (Inr c_ex), P_wait 1 0] (m1, w1) of
               None \<Rightarrow> False
             | Some (rs2, m2, w2) \<Rightarrow> True)
        | _ \<Rightarrow> False"
    by code_simp
  then obtain v m1 w1 rs2 m2 w2 where
    reap: "pm_reap 1 (?m0, w_ex) = Some (Ret v, m1, w1)"
    and run2: "pm_run [Start (Inr c_ex), P_wait 1 0] (m1, w1) = Some (rs2, m2, w2)"
  proof -
    assume f: "case pm_reap 1 (?m0, w_ex) of
          Some (Ret v, m1, w1) \<Rightarrow>
            (case pm_run [Start (Inr c_ex), P_wait 1 0] (m1, w1) of
               None \<Rightarrow> False
             | Some (rs2, m2, w2) \<Rightarrow> True)
        | _ \<Rightarrow> False"
      and that: "\<And>v m1 w1 rs2 m2 w2.
        pm_reap 1 (?m0, w_ex) = Some (Ret v, m1, w1) \<Longrightarrow>
        pm_run [Start (Inr c_ex), P_wait 1 0] (m1, w1) = Some (rs2, m2, w2) \<Longrightarrow> thesis"
    from f obtain a m1 w1 where r: "pm_reap 1 (?m0, w_ex) = Some (a, m1, w1)"
      by (cases "pm_reap 1 (?m0, w_ex)") auto
    from f r obtain v where a: "a = Ret v"
      by (cases a) auto
    from f r a obtain rs2 m2 w2 where
      "pm_run [Start (Inr c_ex), P_wait 1 0] (m1, w1) = Some (rs2, m2, w2)"
      by (cases "pm_run [Start (Inr c_ex), P_wait 1 0] (m1, w1)") (auto simp del: pm_run.simps)
    with r a that show thesis by blast
  qed
  have gone: "procs m2 1 = None \<and> 1 \<notin> set (issued rs2)"
    using registry_ids_increase_and_stay_reaped [of "[]" w_ex "[]" ProcessManager_init w_ex
        ?m0 1 w_ex v m1 w1 "[Start (Inr c_ex), P_wait 1 0]" rs2 m2 w2,
        THEN conjunct2, THEN conjunct1]
      ok reap run2
    by blast
  have "procs ProcessManager_init 7 = None"
    by (simp add: ProcessManager_init_def)
  then have unknown: "pm_read 7 (ProcessManager_init, w_ex) =
      Some (Exc (KeyError 7), ProcessManager_init, w_ex)"
    using registry_ids_increase_and_stay_reaped [of "[]" w_ex "[]" ProcessManager_init w_ex
        ProcessManager_init 1 w_ex V_none ProcessManager_init w_ex "[]" "[]" ProcessManager_init
        w_ex ProcessManager_init 7 0 w_ex 0 "[]" 0,
        THEN conjunct2, THEN conjunct2, THEN conjunct1]
    by blast
  have first: "\<exists>rs m w'.
      pm_run ?cs (ProcessManager_init, w_ex) = Some (rs, m, w') \<and>
      map snd rs = [Ret (V_int 1), Exc (OSError 2), Ret (V_int 2), Ret V_none, Ret (V_int 3),
                    Exc (KeyError 1)] \<and>
      issued rs = [1, 2, 3] \<and>
      (\<exists>q. procs m 2 = Some q \<and> cpid (child q) = 4243)"
    by (rule exI [of _ rs], rule exI [of _ m], rule exI [of _ w'])
       (simp add: run out iss q pid del: pm_run.simps)
  have second: "\<exists>v m1 w1 rs2 m2 w2.
      pm_reap 1 (?m0, w_ex) = Some (Ret v, m1, w1) \<and>
      pm_run [Start (Inr c_ex), P_wait 1 0] (m1, w1) = Some (rs2, m2, w2) \<and>
      procs m2 1 = None \<and> 1 \<notin> set (issued rs2)"
    by (rule exI [of _ v], rule exI [of _ m1], rule exI [of _ w1], rule exI [of _ rs2],
        rule exI [of _ m2], rule exI [of _ w2]) (simp add: reap run2 gone del: pm_run.simps)
  let ?m4 = "\<lparr>last_id = 2, procs = [1 \<mapsto> p_ex, 2 \<mapsto> p_ex\<lparr>child := c_ex\<lparr>cpid := 4243\<rparr>\<rparr>]\<rparr>"
  have "pm_call (P_reap 1) (?m4, w_ex) \<noteq> None"
    by code_simp
  then obtain r m5 w5 where reap4: "pm_call (P_reap 1) (?m4, w_ex) = Some (r, m5, w5)"
    by (cases "pm_call (P_reap 1) (?m4, w_ex)") (auto simp del: pm_call.simps)
  have t4: "target (P_reap 1) \<noteq> Some 2" "2 \<le> last_id ?m4"
    by simp_all
  have "procs m5 2 = procs ?m4 2"
    using registry_ids_increase_and_stay_reaped [of "[]" w_ex "[]" ProcessManager_init w_ex
        ProcessManager_init 1 w_ex V_none ProcessManager_init w_ex "[]" "[]" ProcessManager_init
        w_ex ProcessManager_init 7 0 w_ex 0 "[]" 0 "P_reap 1" ?m4 w_ex r m5 w5 2,
        THEN conjunct2, THEN conjunct2, THEN conjunct2, THEN conjunct1]
      reap4 t4
    by blast
  then have kept: "procs m5 2 = Some (p_ex\<lparr>child := c_ex\<lparr>cpid := 4243\<rparr>\<rparr>)"
    by simp
  have third: "\<exists>r m5 w5.
      pm_call (P_reap 1) (?m4, w_ex) = Some (r, m5, w5) \<and>
      procs m5 2 = Some (p_ex\<lparr>child := c_ex\<lparr>cpid := 4243\<rparr>\<rparr>)"
    by (rule exI [of _ r], rule exI [of _ m5], rule exI [of _ w5])
       (simp add: reap4 kept del: pm_call.simps)
  from first second unknown third show ?thesis
    by (intro conjI)
qed

subsection \<open>The Deadline Guard around an operation of known duration\<close>

lemma lasting_armed:
  "lasting d r (st, w\<lparr>classes := c, sigalrm := Handler (SigAlarm k),
                       alarm := (if t = 0 then None else Some (clock w + t))\<rparr>) =
     (case d of
        None \<Rightarrow>
          if t = 0 then None
          else Some (Exc (SigAlarm k), st,
                     w\<lparr>classes := c, sigalrm := Handler (SigAlarm k), alarm := None,
                       clock := clock w + t\<rparr>)
      | Some n \<Rightarrow>
          if t = 0 then
            Some (r, st, w\<lparr>classes := c, sigalrm := Handler (SigAlarm k), alarm := None,
                          clock := clock w + n\<rparr>)
          else if n < t then
            Some (r, st, w\<lparr>classes := c, sigalrm := Handler (SigAlarm k),
                          alarm := Some (clock w + t), clock := clock w + n\<rparr>)
          else Some (Exc (SigAlarm k), st,
                     w\<lparr>classes := c, sigalrm := Handler (SigAlarm k), alarm := None,
                       clock := clock w + t\<rparr>))"
  by (cases d) (auto simp add: lasting_def blocking_def Let_def max_def)

lemma with_timeout_lasting:
  assumes wf: "case alarm w of None \<Rightarrow> True | Some a \<Rightarrow> clock w < a"
      and nd: "r \<noteq> Dead" and ns: "r \<noteq> Exc (SigAlarm (classes w))"
  shows "with_timeout t (lasting d r) (st, w) = guarded_outcome t d r st w"
proof -
  let ?g = "(classes w, (case alarm w of None \<Rightarrow> 0 | Some a \<Rightarrow> a - clock w), sigalrm w, clock w)"
  let ?w1 = "w\<lparr>classes := classes w + 1, sigalrm := Handler (SigAlarm (classes w)),
        alarm := (if t = 0 then None else Some (clock w + t))\<rparr>"
  have wt: "with_timeout t (lasting d r) (st, w) =
     (case lasting d r (st, ?w1) of
           None \<Rightarrow> None
         | Some (Ret v, s1) \<Rightarrow> Some (with_timeout_finally ?g (Ret v) s1)
         | Some (Exc e, s1) \<Rightarrow>
             Some (with_timeout_finally ?g (if e = SigAlarm (classes w) then Exc (Timeout t) else Exc e) s1)
         | Some (Dead, s1) \<Rightarrow> Some (Dead, s1))"
    by (cases "t = 0") (simp_all add: with_timeout_def with_timeout_enter_eq split: option.split res.split prod.split)
  show ?thesis
  proof (cases "alarm w")
    case None
    then show ?thesis
      unfolding wt lasting_armed using nd ns
      by (cases d; cases r)
         (auto simp add: guarded_outcome_def with_timeout_finally_eq Let_def)
  next
    case (Some a)
    then have lt: "clock w < a" using wf by simp
    show ?thesis
      unfolding wt lasting_armed using nd ns Some lt
      by (cases d; cases r; cases "sigalrm w")
         (auto simp add: guarded_outcome_def with_timeout_finally_eq Let_def min_def)
  qed
qed




text \<open>
  Claim C10. With a duration of 0 the guard arms no alarm: the operation runs with the
  timer disarmed. So an operation that lasts \<open>n\<close> seconds and does not touch the
  alarm itself has its own outcome after \<open>n\<close> seconds, however large \<open>n\<close> is (an
  outer alarm that expired meanwhile takes its effect on exit, as for any duration);
  the guard's Timeout is never raised; and around an operation that never returns the
  guard never returns either.
\<close>

theorem with_timeout_zero_is_no_deadline:
  "alarm (snd (with_timeout_enter 0 w)) = None \<and>
   ((case alarm w of None \<Rightarrow> True | Some a \<Rightarrow> clock w < a) \<and>
    r \<noteq> Dead \<and> r \<noteq> Exc (SigAlarm (classes w)) \<longrightarrow>
      with_timeout 0 (lasting None r) (st, w) = None \<and>
      with_timeout 0 (lasting (Some n) r) (st, w) =
        (let w1 = w\<lparr>clock := clock w + n, classes := classes w + 1\<rparr>
         in case alarm w of
              None \<Rightarrow> Some (r, st, w1)
            | Some a \<Rightarrow>
                if clock w + n < a then Some (r, st, w1\<lparr>alarm := Some a\<rparr>)
                else Some ((case sigalrm w of
                              SIG_IGN \<Rightarrow> r
                            | SIG_DFL \<Rightarrow> Dead
                            | Handler e \<Rightarrow> Exc e), st, w1\<lparr>alarm := None\<rparr>)))"
proof -
  have a: "alarm (snd (with_timeout_enter 0 w)) = None"
    by (simp add: with_timeout_enter_eq)
  have b: "(case alarm w of None \<Rightarrow> True | Some a \<Rightarrow> clock w < a) \<and>
    r \<noteq> Dead \<and> r \<noteq> Exc (SigAlarm (classes w)) \<longrightarrow>
      with_timeout 0 (lasting None r) (st, w) = None \<and>
      with_timeout 0 (lasting (Some n) r) (st, w) =
        (let w1 = w\<lparr>clock := clock w + n, classes := classes w + 1\<rparr>
         in case alarm w of
              None \<Rightarrow> Some (r, st, w1)
            | Some a \<Rightarrow>
                if clock w + n < a then Some (r, st, w1\<lparr>alarm := Some a\<rparr>)
                else Some ((case sigalrm w of
                              SIG_IGN \<Rightarrow> r
                            | SIG_DFL \<Rightarrow> Dead
                            | Handler e \<Rightarrow> Exc e), st, w1\<lparr>alarm := None\<rparr>))"
  proof
    assume h: "(case alarm w of None \<Rightarrow> True | Some a \<Rightarrow> clock w < a) \<and>
      r \<noteq> Dead \<and> r \<noteq> Exc (SigAlarm (classes w))"
    then have wf: "case alarm w of None \<Rightarrow> True | Some a \<Rightarrow> clock w < a"
      and nd: "r \<noteq> Dead" and ns: "r \<noteq> Exc (SigAlarm (classes w))"
      by simp_all
    show "with_timeout 0 (lasting None r) (st, w) = None \<and>
      with_timeout 0 (lasting (Some n) r) (st, w) =
        (let w1 = w\<lparr>clock := clock w + n, classes := classes w + 1\<rparr>
         in case alarm w of
              None \<Rightarrow> Some (r, st, w1)
            | Some a \<Rightarrow>
                if clock w + n < a then Some (r, st, w1\<lparr>alarm := Some a\<rparr>)
                else Some ((case sigalrm w of
                              SIG_IGN \<Rightarrow> r
                            | SIG_DFL \<Rightarrow> Dead
                            | Handler e \<Rightarrow> Exc e), st, w1\<lparr>alarm := None\<rparr>))"
      unfolding with_timeout_lasting [OF wf nd ns]
      by (simp add: guarded_outcome_def Let_def)
  qed
  from a b show ?thesis by blast
qed

theorem with_timeout_zero_is_no_deadline_witness:
  "(case alarm w_ex of None \<Rightarrow> True | Some a \<Rightarrow> clock w_ex < a) \<and>
   with_timeout 0 (lasting (Some 1000) (Ret (7::int))) ((), w_ex) =
     Some (Ret 7, (), w_ex\<lparr>clock := 1100, classes := 1\<rparr>) \<and>
   with_timeout 0 (lasting None (Ret (7::int))) ((), w_ex) = None"
proof -
  have wf: "case alarm w_ex of None \<Rightarrow> True | Some a \<Rightarrow> clock w_ex < a"
    by (simp add: w_ex_def)
  have r: "Ret (7::int) \<noteq> Dead \<and> Ret (7::int) \<noteq> Exc (SigAlarm (classes w_ex))"
    by simp
  show ?thesis
    using with_timeout_zero_is_no_deadline [of w_ex "Ret (7::int)" "()" 1000] wf r
    by (simp add: w_ex_def)
qed

subsection \<open>One wait, guarded or not\<close>

lemma wait_done_keeps:
  "exit_at (child (wait_done st p)) = exit_at (child p)"
  "reaped (child (wait_done st p)) = reaped (child p)"
  "cpid (child (wait_done st p)) = cpid (child p)"
  "has_stdin (wait_done st p) = has_stdin p"
  "stdin_closed (child (wait_done st p)) = stdin_closed (child p)"
  by (simp_all add: wait_done_def Let_def closeinput_def stdout_thread_done_def
        stderr_thread_done_def split: option.split)

lemma wait_done_quit:
  "quit p \<or> has_stdin p \<and> (WIFEXITED st \<or> WIFSIGNALED st) \<Longrightarrow> quit (wait_done st p)"
  by (auto simp add: wait_done_def Let_def closeinput_def stdout_thread_done_def
        stderr_thread_done_def split: option.split)

lemma wait_done_caches:
  "WIFEXITED st \<or> WIFSIGNALED st \<Longrightarrow> exitstatus (wait_done st p) = Some st"
  by (simp add: wait_done_def Let_def closeinput_def stdout_thread_done_def
        stderr_thread_done_def split: option.split)

lemma thread_join_now:
  assumes "te \<le> clock w" and "\<forall>a. alarm w = Some a \<longrightarrow> te < a"
  shows "thread_join (Some te) w = Some (Ret (), w)"
proof -
  have m: "w\<lparr>clock := max (clock w) te\<rparr> = w"
    using assms(1) by (simp add: max_def)
  show ?thesis
    using assms(2) by (cases "alarm w") (simp_all add: thread_join_def m)
qed

lemma join_stdout_now:
  assumes "eof_time (child q) = Some te" and "te \<le> clock w"
      and "\<forall>a. alarm w = Some a \<longrightarrow> te < a"
  shows "join_stdout (q, w) = Some (Ret (), stdout_thread_done q, w)"
  using assms thread_join_now [OF assms(2,3)]
  by (simp add: join_stdout_def stdout_thread_done_def split: option.split)

lemma join_stderr_now:
  assumes "eof_time (child q) = Some te" and "te \<le> clock w"
      and "\<forall>a. alarm w = Some a \<longrightarrow> te < a"
  shows "join_stderr (q, w) = Some (Ret (), stderr_thread_done q, w)"
  using assms thread_join_now [OF assms(2,3)]
  by (simp add: join_stderr_def stderr_thread_done_def split: option.split)

lemma stdout_thread_done_fields:
  "exit_at (child (stdout_thread_done q)) = exit_at (child q)"
  "eof_delay (child (stdout_thread_done q)) = eof_delay (child q)"
  "has_stderr (stdout_thread_done q) = has_stderr q"
  by (simp_all add: stdout_thread_done_def split: option.split)

lemma stdout_thread_done_keeps:
  "eof_time (child (stdout_thread_done q)) = eof_time (child q)"
  "has_stderr (stdout_thread_done q) = has_stderr q"
  by (simp_all add: eof_time_def stdout_thread_done_fields cong: option.case_cong)

lemma wait_finish_now:
  assumes e: "has_stdout p \<or> has_stderr p \<longrightarrow> eof_time (child p) = Some te"
      and t: "te \<le> clock w"
      and a: "\<forall>a. alarm w = Some a \<longrightarrow> te < a"
      and s: "WIFEXITED st \<or> WIFSIGNALED st"
  shows "wait_finish st (p, w) = Some (Ret (Some st), wait_done st p, w)"
proof -
  define p2 where "p2 = (if has_stdin p then closeinput (p\<lparr>exitstatus := Some st\<rparr>)
                         else p\<lparr>exitstatus := Some st\<rparr>)"
  define p3 where "p3 = (if has_stdout p then stdout_thread_done p2 else p2)"
  define p4 where "p4 = (if has_stderr p then stderr_thread_done p3 else p3)"
  have e2: "eof_time (child p2) = eof_time (child p)" "has_stdout p2 = has_stdout p"
      "has_stderr p2 = has_stderr p"
    by (simp_all add: p2_def closeinput_def)
  have e3: "eof_time (child p3) = eof_time (child p)" "has_stderr p3 = has_stderr p"
    using e2 by (simp_all add: p3_def stdout_thread_done_keeps)
  have j3: "(if has_stdout p then join_stdout (p2, w) else Some (Ret (), p2, w)) =
      Some (Ret (), p3, w)"
  proof (cases "has_stdout p")
    case True
    then have "eof_time (child p2) = Some te" using e e2(1) by simp
    from join_stdout_now [OF this t a] True show ?thesis by (simp add: p3_def)
  next
    case False
    then show ?thesis by (simp add: p3_def)
  qed
  have j4: "(if has_stderr p3 then join_stderr (p3, w) else Some (Ret (), p3, w)) =
      Some (Ret (), p4, w)"
  proof (cases "has_stderr p")
    case True
    then have "eof_time (child p3) = Some te" using e e3(1) by simp
    from join_stderr_now [OF this t a] True e3(2) show ?thesis by (simp add: p4_def)
  next
    case False
    then show ?thesis using e3(2) by (simp add: p4_def)
  qed
  have f0: "wait_finish st (p, w) =
      (case (if has_stdout p then join_stdout (p2, w) else Some (Ret (), p2, w)) of
         None \<Rightarrow> None
       | Some (Exc e, s3) \<Rightarrow> Some (Exc e, s3)
       | Some (Dead, s3) \<Rightarrow> Some (Dead, s3)
       | Some (Ret u, s3) \<Rightarrow>
          (case (if has_stderr (fst s3) then join_stderr s3 else Some (Ret (), s3)) of
                None \<Rightarrow> None
              | Some (Exc e, s4) \<Rightarrow> Some (Exc e, s4)
              | Some (Dead, s4) \<Rightarrow> Some (Dead, s4)
              | Some (Ret u, s4) \<Rightarrow> Some (Ret (Some st), s4)))"
    by (simp add: wait_finish_def Let_def p2_def closeinput_def)
  have f: "wait_finish st (p, w) = Some (Ret (Some st), p4, w)"
    unfolding f0 j3 by (simp add: j4)
  have d: "wait_done st p = p4"
    using s
    by (simp add: wait_done_def Let_def p4_def p3_def p2_def closeinput_def
          stdout_thread_done_fields)
  show ?thesis
    unfolding f d ..
qed

lemma blocking_in_time:
  assumes "\<forall>a. alarm w = Some a \<longrightarrow> te < a"
  shows "blocking (Some (te, v)) w = Some (Ret v, w\<lparr>clock := max (clock w) te\<rparr>)"
  using assms by (cases "alarm w") (simp_all add: blocking_def)

lemma blocking_interrupted:
  assumes "alarm w = Some a" and "sigalrm w = Handler e"
      and "\<forall>te v. c = Some (te, v) \<longrightarrow> a \<le> te"
  shows "blocking c w = Some (Exc e, w\<lparr>clock := max (clock w) a, alarm := None\<rparr>)"
  using assms by (cases c) (auto simp add: blocking_def Let_def)

lemma os_waitpid_blocks:
  assumes "\<not> reaped (child p)"
  shows "os_waitpid 0 (p, w) =
     (let pb = fst (background (p, w));
          w1 = w\<lparr>oslog := oslog w @ [(clock w, Waitpid (cpid (child p)) 0 (alarm w))]\<rparr>
      in case blocking (map_option (\<lambda>(te, st). (te, (cpid (child p), st))) (exit_at (child pb))) w1 of
           None \<Rightarrow> None
         | Some (Ret v, w2) \<Rightarrow> Some (Ret v, pb\<lparr>child := (child pb)\<lparr>reaped := True\<rparr>\<rparr>, w2)
         | Some (Exc e, w2) \<Rightarrow> Some (Exc e, pb, w2)
         | Some (Dead, w2) \<Rightarrow> Some (Dead, pb, w2))"
proof -
  obtain pb where bg: "background (p, w) = (pb, w)"
    using background_eq [of p w] by blast
  have k: "\<not> reaped (child pb)" "cpid (child pb) = cpid (child p)"
    using background_keeps(4) [of p w] background_cpid [of p w] assms bg by simp_all
  show ?thesis
    using k by (simp add: os_waitpid_def bg Let_def)
qed

lemma wait_in_time:
  assumes u: "exitstatus p = None" and r: "\<not> reaped (child p)" and pid: "cpid (child p) \<noteq> 0"
      and d: "has_stdout p \<or> has_stderr p \<longrightarrow> eof_delay (child p) = Some 0"
      and x: "exit_at (child (fst (background (p, w)))) = Some (te, st)"
      and a: "\<forall>a. alarm w = Some a \<longrightarrow> te < a"
  shows "wait 0 (p, w) =
     Some (Ret (Some st),
           wait_done st ((fst (background (p, w)))\<lparr>child := (child (fst (background (p, w))))\<lparr>reaped := True\<rparr>\<rparr>),
           w\<lparr>oslog := oslog w @ [(clock w, Waitpid (cpid (child p)) 0 (alarm w))],
             clock := max (clock w) te\<rparr>)"
proof -
  define pb where "pb = fst (background (p, w))"
  define pr where "pr = pb\<lparr>child := (child pb)\<lparr>reaped := True\<rparr>\<rparr>"
  define w1 where "w1 = w\<lparr>oslog := oslog w @ [(clock w, Waitpid (cpid (child p)) 0 (alarm w))]\<rparr>"
  define w2 where "w2 = w1\<lparr>clock := max (clock w1) te\<rparr>"
  have xb: "exit_at (child pb) = Some (te, st)"
    using x by (simp add: pb_def)
  have a1: "\<forall>a. alarm w1 = Some a \<longrightarrow> te < a"
    using a by (simp add: w1_def)
  have bl: "blocking (map_option (\<lambda>(te, st). (te, (cpid (child p), st))) (exit_at (child pb))) w1 =
      Some (Ret (cpid (child p), st), w2)"
    unfolding xb w2_def using blocking_in_time [OF a1] by simp
  have o: "os_waitpid 0 (p, w) = Some (Ret (cpid (child p), st), pr, w2)"
    unfolding os_waitpid_blocks [OF r] Let_def pb_def [symmetric] w1_def [symmetric] bl
    by (simp add: pr_def)
  have db: "has_stdout pb \<or> has_stderr pb \<longrightarrow> eof_delay (child pb) = Some 0"
    using background_keeps(5,6,7) [of p w] d by (simp add: pb_def program_def)
  have et: "has_stdout pr \<or> has_stderr pr \<longrightarrow> eof_time (child pr) = Some te"
    using xb db by (auto simp add: pr_def eof_time_def)
  have t2: "te \<le> clock w2" by (simp add: w2_def)
  have a2: "\<forall>a. alarm w2 = Some a \<longrightarrow> te < a"
    using a by (simp add: w2_def w1_def)
  have fin: "(if WIFEXITED st \<or> WIFSIGNALED st then wait_finish st (pr, w2)
              else Some (Ret (Some st), pr, w2)) =
      Some (Ret (Some st), wait_done st pr, w2)"
  proof (cases "WIFEXITED st \<or> WIFSIGNALED st")
    case True
    from wait_finish_now [OF et t2 a2 True] True show ?thesis by simp
  next
    case False
    then show ?thesis by (simp add: wait_done_def)
  qed
  have "wait 0 (p, w) = Some (Ret (Some st), wait_done st pr, w2)"
    using u pid fin by (simp add: wait_def o)
  then show ?thesis
    by (simp add: pr_def pb_def w2_def w1_def)
qed

lemma wait_interrupted:
  assumes u: "exitstatus p = None" and r: "\<not> reaped (child p)"
      and al: "alarm w = Some a" and h: "sigalrm w = Handler e"
      and late: "\<forall>te st. exit_at (child (fst (background (p, w)))) = Some (te, st) \<longrightarrow> a \<le> te"
  shows "wait 0 (p, w) =
     Some (Exc e, fst (background (p, w)),
           w\<lparr>oslog := oslog w @ [(clock w, Waitpid (cpid (child p)) 0 (alarm w))],
             clock := max (clock w) a, alarm := None\<rparr>)"
proof -
  define pb where "pb = fst (background (p, w))"
  define w1 where "w1 = w\<lparr>oslog := oslog w @ [(clock w, Waitpid (cpid (child p)) 0 (alarm w))]\<rparr>"
  have w1: "alarm w1 = Some a" "sigalrm w1 = Handler e"
    using al h by (simp_all add: w1_def)
  have l: "\<forall>te v. map_option (\<lambda>(te, st). (te, (cpid (child p), st))) (exit_at (child pb)) =
      Some (te, v) \<longrightarrow> a \<le> te"
    using late by (auto simp add: pb_def)
  have o: "os_waitpid 0 (p, w) = Some (Exc e, pb, w1\<lparr>clock := max (clock w1) a, alarm := None\<rparr>)"
    unfolding os_waitpid_blocks [OF r] Let_def pb_def [symmetric] w1_def [symmetric]
      blocking_interrupted [OF w1 l]
    by simp
  have "wait 0 (p, w) = Some (Exc e, pb, w1\<lparr>clock := max (clock w1) a, alarm := None\<rparr>)"
    using u by (simp add: wait_def o)
  then show ?thesis
    by (simp add: pb_def w1_def)
qed

lemma guarded_wait:
  assumes g: "0 < g" and u: "exitstatus p = None" and r: "\<not> reaped (child p)"
      and pid: "cpid (child p) \<noteq> 0" and d: "has_stdout p \<or> has_stderr p \<longrightarrow> eof_delay (child p) = Some 0"
      and far0: "\<forall>a. alarm w = Some a \<longrightarrow> clock w < a"
      and far1: "\<forall>a te st. alarm w = Some a \<longrightarrow>
                   exit_at (child (fst (background (p, w)))) = Some (te, st) \<longrightarrow>
                   te < clock w + g \<longrightarrow> te < a"
      and far2: "\<forall>a. alarm w = Some a \<longrightarrow>
                   (\<forall>te st. exit_at (child (fst (background (p, w)))) = Some (te, st) \<longrightarrow>
                      clock w + g \<le> te) \<longrightarrow>
                   clock w + g < a"
  shows "with_timeout g (wait 0) (p, w) =
     (let pb = fst (background (p, w));
          w1 = w\<lparr>classes := classes w + 1,
                 oslog := oslog w @ [(clock w, Waitpid (cpid (child p)) 0 (Some (clock w + g)))]\<rparr>
      in case exit_at (child pb) of
           None \<Rightarrow> Some (Exc (Timeout g), pb, w1\<lparr>clock := clock w + g\<rparr>)
         | Some (te, st) \<Rightarrow>
             if te < clock w + g
             then Some (Ret (Some st), wait_done st (pb\<lparr>child := (child pb)\<lparr>reaped := True\<rparr>\<rparr>),
                        w1\<lparr>clock := max (clock w) te\<rparr>)
             else Some (Exc (Timeout g), pb, w1\<lparr>clock := clock w + g\<rparr>))"
proof -
  define wa where "wa = w\<lparr>classes := classes w + 1, sigalrm := Handler (SigAlarm (classes w)),
        alarm := Some (clock w + g)\<rparr>"
  define old where "old = (case alarm w of None \<Rightarrow> 0 | Some a \<Rightarrow> a - clock w)"
  define gd where "gd = (classes w, old, sigalrm w, clock w)"
  define pb where "pb = fst (background (p, w))"
  define w1 where "w1 = w\<lparr>classes := classes w + 1,
        oslog := oslog w @ [(clock w, Waitpid (cpid (child p)) 0 (Some (clock w + g)))]\<rparr>"
  have wa: "clock wa = clock w" "alarm wa = Some (clock w + g)"
      "sigalrm wa = Handler (SigAlarm (classes w))" "oslog wa = oslog w"
    by (simp_all add: wa_def)
  have pb: "fst (background (p, wa)) = pb"
    unfolding pb_def by (rule background_clock_only) (simp add: wa)
  have enter: "with_timeout_enter g w = (gd, wa)"
    using g by (simp add: with_timeout_enter_eq gd_def wa_def old_def)
  have fin: "with_timeout_finally gd r (q, v) = (r, q, v\<lparr>alarm := alarm w, sigalrm := sigalrm w\<rparr>)"
    if lo: "clock w \<le> clock v" and hi: "\<forall>a. alarm w = Some a \<longrightarrow> clock v < a"
    for r :: "int option res" and q v
  proof (cases "alarm w")
    case None
    then show ?thesis
      unfolding gd_def using lo by (simp add: with_timeout_finally_eq old_def)
  next
    case (Some a)
    then have a: "clock w < a" "clock v < a" using far0 hi by simp_all
    then have o: "old = a - clock w" "old \<noteq> 0" "clock w + old = a"
      using Some by (simp_all add: old_def)
    have n: "\<not> clock w + old \<le> clock v"
      using a o(3) by simp
    show ?thesis
      unfolding gd_def with_timeout_finally_eq [OF lo] using o(2) n
      by (simp add: o(3) Some)
  qed
  have wt: "with_timeout g (wait 0) (p, w) =
     (case wait 0 (p, wa) of
           None \<Rightarrow> None
         | Some (Ret v, s1) \<Rightarrow> Some (with_timeout_finally gd (Ret v) s1)
         | Some (Exc e, s1) \<Rightarrow>
             Some (with_timeout_finally gd (if e = SigAlarm (classes w) then Exc (Timeout g) else Exc e) s1)
         | Some (Dead, s1) \<Rightarrow> Some (Dead, s1))"
    by (simp add: with_timeout_def enter gd_def split: option.split res.split prod.split)
  have timed_out: "with_timeout g (wait 0) (p, w) =
      Some (Exc (Timeout g), pb, w1\<lparr>clock := clock w + g\<rparr>)"
    if late: "\<forall>te st. exit_at (child pb) = Some (te, st) \<longrightarrow> clock w + g \<le> te"
  proof -
    define v where "v = wa\<lparr>oslog := oslog wa @ [(clock wa, Waitpid (cpid (child p)) 0 (alarm wa))],
             clock := max (clock wa) (clock w + g), alarm := None\<rparr>"
    have l: "\<forall>te st. exit_at (child (fst (background (p, wa)))) = Some (te, st) \<longrightarrow>
        clock w + g \<le> te"
      using late by (simp add: pb)
    have wi: "wait 0 (p, wa) = Some (Exc (SigAlarm (classes w)), pb, v)"
      using wait_interrupted [OF u r wa(2) wa(3) l] by (simp add: pb v_def)
    have c: "clock w \<le> clock v" "\<forall>a. alarm w = Some a \<longrightarrow> clock v < a"
      using far2 late by (simp_all add: v_def wa pb_def)
    have e: "v\<lparr>alarm := alarm w, sigalrm := sigalrm w\<rparr> = w1\<lparr>clock := clock w + g\<rparr>"
      by (cases w) (simp add: v_def wa_def w1_def)
    show ?thesis
      unfolding wt wi using fin [OF c, of "Exc (Timeout g)" pb] by (simp add: e)
  qed
  show ?thesis
  proof (cases "exit_at (child pb)")
    case None
    then have "\<forall>te st. exit_at (child pb) = Some (te, st) \<longrightarrow> clock w + g \<le> te"
      by simp
    from timed_out [OF this] show ?thesis
      unfolding Let_def pb_def [symmetric] w1_def [symmetric] using None by simp
  next
    case (Some ts)
    obtain te st where ts: "ts = (te, st)" by (cases ts)
    show ?thesis
    proof (cases "te < clock w + g")
      case False
      then have "\<forall>te st. exit_at (child pb) = Some (te, st) \<longrightarrow> clock w + g \<le> te"
        using Some ts by simp
      from timed_out [OF this] show ?thesis
        unfolding Let_def pb_def [symmetric] w1_def [symmetric] using Some ts False by simp
    next
      case True
      define pd where "pd = wait_done st (pb\<lparr>child := (child pb)\<lparr>reaped := True\<rparr>\<rparr>)"
      define v where "v = wa\<lparr>oslog := oslog wa @ [(clock wa, Waitpid (cpid (child p)) 0 (alarm wa))],
             clock := max (clock wa) te\<rparr>"
      have x: "exit_at (child (fst (background (p, wa)))) = Some (te, st)"
        using Some ts by (simp add: pb)
      have a: "\<forall>a. alarm wa = Some a \<longrightarrow> te < a"
        using True by (simp add: wa)
      have wi: "wait 0 (p, wa) = Some (Ret (Some st), pd, v)"
        using wait_in_time [OF u r pid d x a] by (simp add: pb pd_def v_def)
      have c: "clock w \<le> clock v" "\<forall>a. alarm w = Some a \<longrightarrow> clock v < a"
        using True far0 far1 Some ts by (auto simp add: v_def wa pb_def)
      have e: "v\<lparr>alarm := alarm w, sigalrm := sigalrm w\<rparr> = w1\<lparr>clock := max (clock w) te\<rparr>"
        by (cases w) (simp add: v_def wa_def w1_def)
      have "with_timeout g (wait 0) (p, w) = Some (Ret (Some st), pd, w1\<lparr>clock := max (clock w) te\<rparr>)"
        unfolding wt wi using fin [OF c, of "Ret (Some st)" pd] by (simp add: e)
      then show ?thesis
        unfolding Let_def pb_def [symmetric] w1_def [symmetric]
        using Some ts True by (simp add: pd_def)
    qed
  qed
qed

subsection \<open>The stages of terminate\<close>

lemma react_lower:
  "(\<forall>te st. exit_at c = Some (te, st) \<longrightarrow> t \<le> te) \<Longrightarrow>
   exit_at (react r t c) = Some (te', st') \<Longrightarrow> t \<le> te'"
  by (cases r; cases "exit_at c") (auto simp add: react_def split: if_splits)

lemma signal_child_lower:
  assumes h: "\<forall>te st. exit_at c = Some (te, st) \<longrightarrow> t \<le> te"
      and x: "exit_at (signal_child sig t c) = Some (te', st')"
  shows "t \<le> te'"
proof (cases "sig = 0 \<or> has_exited t c")
  case True
  then have "signal_child sig t c = c"
    by (simp add: signal_child_def)
  with h x show ?thesis by simp
next
  case False
  then have "\<exists>r. signal_child sig t c = react r t c"
    by (cases "map_of (on_signal c) sig"; cases "sig = SIGKILL")
       (simp_all add: signal_child_def, blast+)
  then obtain r where "signal_child sig t c = react r t c" ..
  with x react_lower [OF h] show ?thesis by simp
qed

lemma sigkill_exits_now:
  assumes "\<forall>te st. exit_at c = Some (te, st) \<longrightarrow> t \<le> te"
  shows "\<exists>st. exit_at (signal_child SIGKILL t c) = Some (t, st)"
proof (cases "exit_at c")
  case None
  then show ?thesis
    by (simp add: signal_child_def has_exited_def react_def SIGKILL_def)
next
  case (Some ts)
  obtain te st where ts: "ts = (te, st)" by (cases ts)
  have "t \<le> te" using assms Some ts by simp
  then show ?thesis
    using Some ts
    by (cases "te = t") (auto simp add: signal_child_def has_exited_def react_def SIGKILL_def)
qed

lemma kill_live:
  assumes "exitstatus p = None" and "\<not> reaped (child p)" and "0 \<le> sig" and "sig \<le> 64"
  shows "kill sig (p, w) =
     (Ret (), p\<lparr>child := signal_child sig (clock w) (child p)\<rparr>,
      w\<lparr>oslog := oslog w @ [(clock w, Kill (cpid (child p)) sig)]\<rparr>)"
  using assms by (simp add: kill_def os_kill_def Let_def)

lemma stage_sigkill:
  assumes e: "exitstatus q = None" and r: "\<not> reaped (child q)"
      and pid: "cpid (child q) \<noteq> 0" and d: "has_stdout q \<or> has_stderr q \<longrightarrow> eof_delay (child q) = Some 0"
      and idle: "\<not> has_stdin q \<or> \<not> feeder_alive q \<or> inputsem q = 0"
      and lower: "\<forall>te st. exit_at (child q) = Some (te, st) \<longrightarrow> clock v \<le> te"
      and far: "\<forall>a. alarm v = Some a \<longrightarrow> clock v < a"
  shows "\<exists>st p' w'.
     terminate_sigkill (q, v) = Some (Ret (Some st), p', w') \<and>
     exit_at (child p') = Some (clock v, st) \<and>
     exit_at (signal_child SIGKILL (clock v) (child q)) = Some (clock v, st) \<and>
     reaped (child p') \<and>
     (WIFEXITED st \<or> WIFSIGNALED st \<longrightarrow> exitstatus p' = Some st) \<and>
     (quit q \<longrightarrow> quit p') \<and>
     clock w' = clock v \<and> alarm w' = alarm v \<and> sigalrm w' = sigalrm v \<and>
     oslog w' = oslog v @ [(clock v, Kill (cpid (child q)) SIGKILL),
                          (clock v, Waitpid (cpid (child q)) 0 (alarm v))]"
proof -
  define q2 where "q2 = q\<lparr>child := signal_child SIGKILL (clock v) (child q)\<rparr>"
  define v2 where "v2 = v\<lparr>oslog := oslog v @ [(clock v, Kill (cpid (child q)) SIGKILL)]\<rparr>"
  have k: "kill SIGKILL (q, v) = (Ret (), q2, v2)"
    unfolding q2_def v2_def by (rule kill_live [OF e r]) (simp_all add: SIGKILL_def)
  have pr: "program (child q2) = program (child q)"
    by (simp add: q2_def signal_child_keeps)
  have q2: "exitstatus q2 = None" "\<not> reaped (child q2)" "cpid (child q2) \<noteq> 0"
      "cpid (child q2) = cpid (child q)" "quit q2 = quit q"
      "\<not> has_stdin q2 \<or> \<not> feeder_alive q2 \<or> inputsem q2 = 0"
      "has_stdout q2 \<or> has_stderr q2 \<longrightarrow> eof_delay (child q2) = Some 0"
    using e r pid idle d program_fields [OF pr]
    by (simp_all add: q2_def signal_child_keeps)
  have v2: "alarm v2 = alarm v" "clock v2 = clock v" "sigalrm v2 = sigalrm v"
    by (simp_all add: v2_def)
  obtain st where ex: "exit_at (child q2) = Some (clock v, st)"
    using sigkill_exits_now [OF lower] by (auto simp add: q2_def)
  have bg: "fst (background (q2, v2)) = q2"
    using background_idle [OF q2(6), of v2] by simp
  define p' where "p' = wait_done st (q2\<lparr>child := (child q2)\<lparr>reaped := True\<rparr>\<rparr>)"
  define w' where "w' = v2\<lparr>oslog := oslog v2 @ [(clock v2, Waitpid (cpid (child q2)) 0 (alarm v2))],
                          clock := max (clock v2) (clock v)\<rparr>"
  have x: "exit_at (child (fst (background (q2, v2)))) = Some (clock v, st)"
    using ex by (simp add: bg)
  have a: "\<forall>a. alarm v2 = Some a \<longrightarrow> clock v < a"
    using far by (simp add: v2)
  have wt: "wait 0 (q2, v2) = Some (Ret (Some st), p', w')"
    using wait_in_time [OF q2(1) q2(2) q2(3) q2(7) x a] by (simp add: bg p'_def w'_def)
  have t: "terminate_sigkill (q, v) = Some (Ret (Some st), p', w')"
    by (simp add: terminate_sigkill_def k wt)
  have p1: "exit_at (child p') = Some (clock v, st)" "reaped (child p')"
    by (simp_all add: p'_def wait_done_keeps ex)
  have p0: "exit_at (signal_child SIGKILL (clock v) (child q)) = Some (clock v, st)"
    using ex by (simp add: q2_def)
  have p2: "WIFEXITED st \<or> WIFSIGNALED st \<longrightarrow> exitstatus p' = Some st"
    by (simp add: p'_def wait_done_caches)
  have p3: "quit q \<longrightarrow> quit p'"
    using q2(5) by (auto simp add: p'_def intro: wait_done_quit)
  have w1: "clock w' = clock v" "alarm w' = alarm v" "sigalrm w' = sigalrm v"
    by (simp_all add: w'_def v2_def)
  have w2: "oslog w' = oslog v @ [(clock v, Kill (cpid (child q)) SIGKILL),
                          (clock v, Waitpid (cpid (child q)) 0 (alarm v))]"
    by (simp add: w'_def v2_def q2(4))
  from t p1 p0 p2 p3 w1 w2 show ?thesis by blast
qed

lemma stage_sigterm:
  assumes g: "0 < g" and e: "exitstatus q = None" and r: "\<not> reaped (child q)"
      and pid: "cpid (child q) \<noteq> 0" and d: "has_stdout q \<or> has_stderr q \<longrightarrow> eof_delay (child q) = Some 0"
      and idle: "\<not> has_stdin q \<or> \<not> feeder_alive q \<or> inputsem q = 0"
      and far0: "\<forall>a. alarm v = Some a \<longrightarrow> clock v < a"
      and far1: "\<forall>a te st. alarm v = Some a \<longrightarrow>
                   exit_at (signal_child SIGTERM (clock v) (child q)) = Some (te, st) \<longrightarrow>
                   te < clock v + g \<longrightarrow> te < a"
      and far2: "\<forall>a. alarm v = Some a \<longrightarrow>
                   \<not> exited_before (clock v + g) (signal_child SIGTERM (clock v) (child q)) \<longrightarrow>
                   clock v + g < a"
  shows "\<exists>st te p' w'.
     terminate_sigterm g (q, v) = Some (Ret (Some st), p', w') \<and>
     exit_at (child p') = Some (te, st) \<and> reaped (child p') \<and>
     (WIFEXITED st \<or> WIFSIGNALED st \<longrightarrow> exitstatus p' = Some st) \<and>
     (quit q \<longrightarrow> quit p') \<and>
     clock w' = max (clock v) te \<and> alarm w' = alarm v \<and> sigalrm w' = sigalrm v \<and>
     (if exited_before (clock v + g) (signal_child SIGTERM (clock v) (child q))
      then exit_at (signal_child SIGTERM (clock v) (child q)) = Some (te, st) \<and>
           te < clock v + g \<and>
           oslog w' = oslog v @ [(clock v, Kill (cpid (child q)) SIGTERM),
                                 (clock v, Waitpid (cpid (child q)) 0 (Some (clock v + g)))]
      else exit_at (signal_child SIGKILL (clock v + g)
                      (signal_child SIGTERM (clock v) (child q))) = Some (te, st) \<and>
           te = clock v + g \<and>
           oslog w' = oslog v @ [(clock v, Kill (cpid (child q)) SIGTERM),
                                 (clock v, Waitpid (cpid (child q)) 0 (Some (clock v + g))),
                                 (clock v + g, Kill (cpid (child q)) SIGKILL),
                                 (clock v + g, Waitpid (cpid (child q)) 0 (alarm v))])"
proof -
  define c2 where "c2 = signal_child SIGTERM (clock v) (child q)"
  define q2 where "q2 = q\<lparr>child := c2\<rparr>"
  define v2 where "v2 = v\<lparr>oslog := oslog v @ [(clock v, Kill (cpid (child q)) SIGTERM)]\<rparr>"
  have k: "kill SIGTERM (q, v) = (Ret (), q2, v2)"
    unfolding q2_def c2_def v2_def by (rule kill_live [OF e r]) (simp_all add: SIGTERM_def)
  have pr: "program (child q2) = program (child q)"
    by (simp add: q2_def c2_def signal_child_keeps)
  have q2: "exitstatus q2 = None" "\<not> reaped (child q2)" "cpid (child q2) \<noteq> 0"
      "cpid (child q2) = cpid (child q)" "quit q2 = quit q"
      "\<not> has_stdin q2 \<or> \<not> feeder_alive q2 \<or> inputsem q2 = 0"
      "has_stdout q2 \<or> has_stderr q2 \<longrightarrow> eof_delay (child q2) = Some 0" "child q2 = c2"
    using e r pid idle d program_fields [OF pr]
    by (simp_all add: q2_def c2_def signal_child_keeps)
  have v2: "alarm v2 = alarm v" "clock v2 = clock v" "sigalrm v2 = sigalrm v"
    by (simp_all add: v2_def)
  have bg: "fst (background (q2, v2)) = q2"
    using background_idle [OF q2(6), of v2] by simp
  define v3 where "v3 = v2\<lparr>classes := classes v2 + 1,
       oslog := oslog v2 @ [(clock v2, Waitpid (cpid (child q2)) 0 (Some (clock v2 + g)))]\<rparr>"
  have v3: "alarm v3 = alarm v" "sigalrm v3 = sigalrm v"
      "oslog v3 = oslog v @ [(clock v, Kill (cpid (child q)) SIGTERM),
                            (clock v, Waitpid (cpid (child q)) 0 (Some (clock v + g)))]"
    by (simp_all add: v3_def v2_def q2(4))
  have g0: "\<forall>a. alarm v2 = Some a \<longrightarrow> clock v2 < a"
    using far0 by (simp add: v2)
  have g1: "\<forall>a te st. alarm v2 = Some a \<longrightarrow>
      exit_at (child (fst (background (q2, v2)))) = Some (te, st) \<longrightarrow>
      te < clock v2 + g \<longrightarrow> te < a"
    using far1 by (simp add: v2 bg q2(8) c2_def)
  have g2: "\<forall>a. alarm v2 = Some a \<longrightarrow>
      (\<forall>te st. exit_at (child (fst (background (q2, v2)))) = Some (te, st) \<longrightarrow>
         clock v2 + g \<le> te) \<longrightarrow>
      clock v2 + g < a"
  proof (intro allI impI)
    fix a
    assume al: "alarm v2 = Some a"
      and late: "\<forall>te st. exit_at (child (fst (background (q2, v2)))) = Some (te, st) \<longrightarrow>
         clock v2 + g \<le> te"
    have "\<not> exited_before (clock v + g) c2"
      using late by (cases "exit_at c2") (auto simp add: exited_before_def bg q2(8) v2)
    then show "clock v2 + g < a"
      using far2 al by (simp add: v2 c2_def)
  qed
  note gw = guarded_wait [OF g q2(1) q2(2) q2(3) q2(7) g0 g1 g2, unfolded bg, folded v3_def]
  show ?thesis
  proof (cases "exited_before (clock v + g) c2")
    case True
    then obtain te st where x: "exit_at c2 = Some (te, st)" and lt: "te < clock v + g"
      by (auto simp add: exited_before_def split: option.splits)
    define p' where "p' = wait_done st (q2\<lparr>child := (child q2)\<lparr>reaped := True\<rparr>\<rparr>)"
    define w' where "w' = v3\<lparr>clock := max (clock v) te\<rparr>"
    have res: "with_timeout g (wait 0) (q2, v2) = Some (Ret (Some st), p', w')"
      unfolding gw using x lt by (simp add: q2(8) v2(2) Let_def p'_def w'_def)
    have t: "terminate_sigterm g (q, v) = Some (Ret (Some st), p', w')"
      by (simp add: terminate_sigterm_def k res is_Timeout_def)
    have p1: "exit_at (child p') = Some (te, st)" "reaped (child p')"
      using x by (simp_all add: p'_def wait_done_keeps q2(8))
    have p2: "WIFEXITED st \<or> WIFSIGNALED st \<longrightarrow> exitstatus p' = Some st"
      by (simp add: p'_def wait_done_caches)
    have p3: "quit q \<longrightarrow> quit p'"
      using q2(5) by (auto simp add: p'_def intro: wait_done_quit)
    have w1: "clock w' = max (clock v) te" "alarm w' = alarm v" "sigalrm w' = sigalrm v"
      using v3 by (simp_all add: w'_def)
    have w2: "oslog w' = oslog v @ [(clock v, Kill (cpid (child q)) SIGTERM),
                               (clock v, Waitpid (cpid (child q)) 0 (Some (clock v + g)))]"
      using v3(3) by (simp add: w'_def)
    from t p1 p2 p3 w1 w2 x lt True show ?thesis
      unfolding c2_def [symmetric]
      by (intro exI [of _ st] exI [of _ te] exI [of _ p'] exI [of _ w']) simp
  next
    case False
    then have late: "\<forall>te st. exit_at c2 = Some (te, st) \<longrightarrow> clock v + g \<le> te"
      by (auto simp add: exited_before_def)
    let ?v4 = "v3\<lparr>clock := clock v + g\<rparr>"
    have res: "with_timeout g (wait 0) (q2, v2) = Some (Exc (Timeout g), q2, ?v4)"
      unfolding gw using late
      by (cases "exit_at c2") (auto simp add: q2(8) v2(2) Let_def)
    have l4: "\<forall>te st. exit_at (child q2) = Some (te, st) \<longrightarrow> clock ?v4 \<le> te"
      using late by (simp add: q2(8))
    have f4: "\<forall>a. alarm ?v4 = Some a \<longrightarrow> clock ?v4 < a"
      using far2 False v3(1) by (simp add: c2_def)
    from stage_sigkill [OF q2(1) q2(2) q2(3) q2(7) q2(6) l4 f4]
    obtain st p' w' where s:
      "terminate_sigkill (q2, ?v4) = Some (Ret (Some st), p', w')"
      "exit_at (child p') = Some (clock ?v4, st)"
      "exit_at (signal_child SIGKILL (clock ?v4) (child q2)) = Some (clock ?v4, st)"
      "reaped (child p')"
      "WIFEXITED st \<or> WIFSIGNALED st \<longrightarrow> exitstatus p' = Some st"
      "quit q2 \<longrightarrow> quit p'"
      "clock w' = clock ?v4" "alarm w' = alarm ?v4" "sigalrm w' = sigalrm ?v4"
      "oslog w' = oslog ?v4 @ [(clock ?v4, Kill (cpid (child q2)) SIGKILL),
                              (clock ?v4, Waitpid (cpid (child q2)) 0 (alarm ?v4))]"
      by (elim exE conjE) (rule that, assumption+)
    have t: "terminate_sigterm g (q, v) = Some (Ret (Some st), p', w')"
      by (simp add: terminate_sigterm_def k res is_Timeout_def s(1))
    have x: "exit_at (child p') = Some (clock v + g, st)" using s(2) by simp
    have x3: "exit_at (signal_child SIGKILL (clock v + g) c2) = Some (clock v + g, st)"
      using s(3) by (simp add: q2(8))
    have c: "clock w' = max (clock v) (clock v + g)" using s(7) by simp
    have a: "alarm w' = alarm v" using s(8) v3(1) by simp
    have h: "sigalrm w' = sigalrm v" using s(9) v3(2) by simp
    have qt: "quit q \<longrightarrow> quit p'" using s(6) q2(5) by simp
    have l: "oslog w' = oslog v @ [(clock v, Kill (cpid (child q)) SIGTERM),
                                 (clock v, Waitpid (cpid (child q)) 0 (Some (clock v + g))),
                                 (clock v + g, Kill (cpid (child q)) SIGKILL),
                                 (clock v + g, Waitpid (cpid (child q)) 0 (alarm v))]"
      using s(10) v3(1) v3(3) q2(4) by simp
    from t x s(4) s(5) qt c a h x3 l False show ?thesis
      unfolding c2_def [symmetric]
      by (intro exI [of _ st] exI [of _ "clock v + g"] exI [of _ p'] exI [of _ w']) simp
  qed
qed

lemma react_exited: "has_exited t c \<Longrightarrow> react r t c = c"
  by (cases r) (auto simp add: react_def has_exited_def split: option.splits)

lemma react_exit_cong:
  "exit_at c' = exit_at c \<Longrightarrow> exit_at (react r t c') = exit_at (react r t c)"
  by (cases r; cases "exit_at c") (auto simp add: react_def)

lemma feeder_closes:
  "feeder_alive p \<Longrightarrow> quit p \<Longrightarrow> length (pending_input p) < inputsem p \<Longrightarrow> inputsem p \<le> n \<Longrightarrow>
   exit_at (child (fst (feeder n (p, w)))) =
   exit_at (react (on_eof (child p)) (clock w) (child p))"
proof (induction n arbitrary: p)
  case 0
  then show ?case by simp
next
  case (Suc n)
  have pos: "inputsem p \<noteq> 0" using Suc.prems by simp
  show ?case
  proof (cases "pending_input p")
    case Nil
    have "exit_at (react (on_eof (child p)) (clock w) ((child p)\<lparr>stdin_closed := True\<rparr>)) =
        exit_at (react (on_eof (child p)) (clock w) (child p))"
      by (rule react_exit_cong) simp
    then show ?thesis
      using Nil pos Suc.prems by (simp add: drain_close_def Let_def)
  next
    case (Cons data rest)
    show ?thesis
    proof (cases "has_exited (clock w) (child p)")
      case True
      then show ?thesis
        using Cons pos Suc.prems by (simp add: Let_def react_exited)
    next
      case False
      let ?p2 = "p\<lparr>inputsem := inputsem p - 1, pending_input := rest,
                     child := (child p)\<lparr>stdin_data := stdin_data (child p) @ [data]\<rparr>\<rparr>"
      have a: "feeder_alive ?p2" "quit ?p2" using Suc.prems by simp_all
      have l1: "length (pending_input ?p2) < inputsem ?p2"
        using Suc.prems Cons by simp
      have l2: "inputsem ?p2 \<le> n"
        using Suc.prems by simp
      have step: "feeder (Suc n) (p, w) = feeder n (?p2, w)"
        using Cons pos False Suc.prems by (simp add: Let_def)
      have "exit_at (react (on_eof (child ?p2)) (clock w) (child ?p2)) =
          exit_at (react (on_eof (child p)) (clock w) (child p))"
        using react_exit_cong [of "(child p)\<lparr>stdin_data := stdin_data (child p) @ [data]\<rparr>"
                "child p" "on_eof (child p)" "clock w"]
        by simp
      then show ?thesis
        unfolding step using Suc.IH [OF a l1 l2] by simp
    qed
  qed
qed

lemma closeinput_reaches_child:
  assumes "has_stdin p" and "feeder_alive p" and "length (pending_input p) \<le> inputsem p"
  shows "exit_at (child (fst (background (closeinput p, w)))) =
         exit_at (react (on_eof (child p)) (clock w) (child p))"
proof -
  let ?q = "closeinput p"
  have q: "feeder_alive ?q" "quit ?q" "length (pending_input ?q) < inputsem ?q"
      "inputsem ?q \<le> inputsem ?q" "has_stdin ?q" "child ?q = child p"
    using assms by (simp_all add: closeinput_def)
  from feeder_closes [OF q(1) q(2) q(3) q(4), of w] q(5) q(6)
  show ?thesis by (simp add: background_def)
qed

text \<open>
  Claim C2, as stated, fails in three situations. On a process whose exit status is
  already cached and that was constructed without a stdin pipe, \<^verbatim>\<open>terminate\<close>
  executes none of the waits and returns no exit status: its first action,
  \<^verbatim>\<open>kill\<close> with SIGTERM, raises OSError. On a process that is not cached but whose
  child has forked, so that the output pipes reach end of file 5 seconds after the
  child's exit at end-of-input, the first wait caches the status and is then held in
  the join of the reader thread beyond the deadline; the guard raises Timeout, which
  \<^verbatim>\<open>terminate\<close> passes over, and \<^verbatim>\<open>kill\<close> with SIGTERM raises OSError for the
  cached status. With an outer alarm due 1 second after the call and a grace period
  of 2, the guard of the first stage finds the outer deadline elapsed when it is left
  and runs the outer handler: the exception of that handler, not an exit status, comes
  out of \<^verbatim>\<open>terminate\<close>, and no signal has been sent.
\<close>

theorem terminate_raises_instead_of_escalating:
  "terminate 3 (p_ex\<lparr>has_stdin := False, exitstatus := Some 256\<rparr>, w_ex) =
     Some (Exc (OSError ECHILD), p_ex\<lparr>has_stdin := False, exitstatus := Some 256\<rparr>, w_ex) \<and>
   exitstatus (Process_init True True True (c_ex\<lparr>on_eof := Exits_after 0 0, eof_delay := Some 5\<rparr>)) = None \<and>
   map_option fst
     (terminate 1 (Process_init True True True (c_ex\<lparr>on_eof := Exits_after 0 0, eof_delay := Some 5\<rparr>),
                   w_ex)) =
     Some (Exc (OSError ECHILD)) \<and>
   exitstatus p_ex = None \<and>
   map_option fst
     (terminate 2 (p_ex, w_ex\<lparr>alarm := Some 101, sigalrm := Handler (SigAlarm 7)\<rparr>)) =
     Some (Exc (SigAlarm 7)) \<and>
   map_option (oslog \<circ> snd \<circ> snd)
     (terminate 2 (p_ex, w_ex\<lparr>alarm := Some 101, sigalrm := Handler (SigAlarm 7)\<rparr>)) =
     Some [(100, Waitpid 4242 0 (Some 102))]"
proof -
  have a: "terminate 3 (p_ex\<lparr>has_stdin := False, exitstatus := Some 256\<rparr>, w_ex) =
     Some (Exc (OSError ECHILD), p_ex\<lparr>has_stdin := False, exitstatus := Some 256\<rparr>, w_ex)"
    by (simp add: terminate_def terminate_sigterm_def kill_def)
  have b: "exitstatus (Process_init True True True (c_ex\<lparr>on_eof := Exits_after 0 0, eof_delay := Some 5\<rparr>)) = None"
    by (simp add: Process_init_def)
  have c: "map_option fst
     (terminate 1 (Process_init True True True (c_ex\<lparr>on_eof := Exits_after 0 0, eof_delay := Some 5\<rparr>),
                   w_ex)) =
     Some (Exc (OSError ECHILD))"
    by code_simp
  have d: "exitstatus p_ex = None"
    by (simp add: p_ex_def Process_init_def)
  have e: "map_option fst
     (terminate 2 (p_ex, w_ex\<lparr>alarm := Some 101, sigalrm := Handler (SigAlarm 7)\<rparr>)) =
     Some (Exc (SigAlarm 7))"
    by code_simp
  have f: "map_option (oslog \<circ> snd \<circ> snd)
     (terminate 2 (p_ex, w_ex\<lparr>alarm := Some 101, sigalrm := Handler (SigAlarm 7)\<rparr>)) =
     Some [(100, Waitpid 4242 0 (Some 102))]"
    by code_simp
  from a b c d e f show ?thesis
    by (intro conjI)
qed

text \<open>
  Claim C2, amended: for a process whose exit status is not yet cached and whose child
  is still to be collected (it has not been waited for by anyone else, and its pid is
  not 0), whose output pipes, if it has any, reach end of file when the child exits
  (the child has not forked), called with a grace period \<open>g\<close> of at least 1 and no
  outer alarm due before the child has exited under the escalation, which is when
  \<^verbatim>\<open>terminate\<close> returns. \<^verbatim>\<open>terminate\<close> always returns, with the status \<open>st\<close> with which the child exited at some time \<open>te\<close>, at
  time \<open>max (clock w) te\<close>, the child collected, the status cached if it is a
  termination status, the close of the input requested if there is a stdin pipe, the
  outer alarm and the SIGALRM handler as they were. The system calls it makes are the
  stages in order: with a stdin pipe, a wait under a deadline of \<open>g\<close> seconds; then
  SIGTERM, sent at \<open>t1\<close>, and a wait under a deadline of \<open>g\<close> seconds; then SIGKILL,
  sent at \<open>t2 = t1 + g\<close>, which is at most \<open>2 * g\<close> seconds after the call, and a
  wait with no alarm of its own. It stops after the first stage in which the child has
  exited: before \<open>t1\<close>, or else before \<open>t2\<close>, or else at \<open>t2\<close>, when the kill
  signal arrives. Which stage that is, and the time and status, are those of the
  escalation \<open>staged_exit\<close> on the child \<open>c1\<close> as the feeder thread leaves it once
  the request to close the input has been made; with the feeder thread running and a
  permit for every pending chunk, that is the child to which end-of-input has been
  given at the time of the call.
\<close>

theorem terminate_escalates:
  assumes "1 \<le> g" and "exitstatus p = None" and "\<not> reaped (child p)"
      and "cpid (child p) \<noteq> 0"
      and "has_stdout p \<or> has_stderr p \<longrightarrow> eof_delay (child p) = Some 0"
      and "\<forall>a. alarm w = Some a \<longrightarrow>
             clock w < a \<and>
             (\<forall>te st. staged_exit g (has_stdin p) (clock w)
                        (if has_stdin p then child (fst (background (closeinput p, w)))
                         else child p) = Some (te, st) \<longrightarrow>
                      te < a)"
  shows "\<exists>st te p' w'.
     terminate g (p, w) = Some (Ret (Some st), p', w') \<and>
     exit_at (child p') = Some (te, st) \<and> reaped (child p') \<and>
     (WIFEXITED st \<or> WIFSIGNALED st \<longrightarrow> exitstatus p' = Some st) \<and>
     (has_stdin p \<longrightarrow> quit p') \<and>
     clock w' = max (clock w) te \<and> alarm w' = alarm w \<and> sigalrm w' = sigalrm w \<and>
     (let t0 = clock w; pid = cpid (child p);
          c1 = (if has_stdin p then child (fst (background (closeinput p, w))) else child p);
          t1 = (if has_stdin p then t0 + g else t0);
          t2 = t1 + g;
          stage1 = (if has_stdin p then [(t0, Waitpid pid 0 (Some t1))] else []);
          stage2 = [(t1, Kill pid SIGTERM), (t1, Waitpid pid 0 (Some t2))];
          stage3 = [(t2, Kill pid SIGKILL), (t2, Waitpid pid 0 (alarm w))]
      in t2 \<le> t0 + 2 * g \<and>
         staged_exit g (has_stdin p) t0 c1 = Some (te, st) \<and>
         (has_stdin p \<and> feeder_alive p \<and> length (pending_input p) \<le> inputsem p \<longrightarrow>
            exit_at c1 = exit_at (react (on_eof (child p)) t0 (child p))) \<and>
         (if has_stdin p \<and> te < t1 then oslog w' = oslog w @ stage1
          else if te < t2 then oslog w' = oslog w @ stage1 @ stage2
          else te = t2 \<and> oslog w' = oslog w @ stage1 @ stage2 @ stage3))"
proof (cases "has_stdin p")
  case False
  have g: "0 < g" using assms(1) by simp
  have idle: "\<not> has_stdin p \<or> \<not> feeder_alive p \<or> inputsem p = 0"
    using False by simp
  define c2 where "c2 = signal_child SIGTERM (clock w) (child p)"
  have far0: "\<forall>a. alarm w = Some a \<longrightarrow> clock w < a"
    using assms(6) by simp
  have H: "\<forall>a te st. alarm w = Some a \<longrightarrow>
      staged_exit g False (clock w) (child p) = Some (te, st) \<longrightarrow> te < a"
    using assms(6) False by simp
  have far1: "\<forall>a te st. alarm w = Some a \<longrightarrow> exit_at c2 = Some (te, st) \<longrightarrow>
      te < clock w + g \<longrightarrow> te < a"
  proof (intro allI impI)
    fix a te st
    assume al: "alarm w = Some a" and x: "exit_at c2 = Some (te, st)" and lt: "te < clock w + g"
    have "staged_exit g False (clock w) (child p) = Some (te, st)"
      using x lt by (simp add: staged_exit_def Let_def exited_before_def c2_def)
    with H al show "te < a" by blast
  qed
  have far2: "\<forall>a. alarm w = Some a \<longrightarrow> \<not> exited_before (clock w + g) c2 \<longrightarrow> clock w + g < a"
  proof (intro allI impI)
    fix a
    assume al: "alarm w = Some a" and n: "\<not> exited_before (clock w + g) c2"
    have "\<forall>te st. exit_at c2 = Some (te, st) \<longrightarrow> clock w + g \<le> te"
      using n by (cases "exit_at c2") (auto simp add: exited_before_def)
    from sigkill_exits_now [OF this]
    obtain st where "exit_at (signal_child SIGKILL (clock w + g) c2) = Some (clock w + g, st)" ..
    then have "staged_exit g False (clock w) (child p) = Some (clock w + g, st)"
      using n by (simp add: staged_exit_def Let_def c2_def)
    with H al show "clock w + g < a" by blast
  qed
  from stage_sigterm [OF g assms(2) assms(3) assms(4) assms(5) idle far0
        far1 [unfolded c2_def] far2 [unfolded c2_def], folded c2_def]
  obtain st te p' w' where s:
    "terminate_sigterm g (p, w) = Some (Ret (Some st), p', w')"
    "exit_at (child p') = Some (te, st)" "reaped (child p')"
    "WIFEXITED st \<or> WIFSIGNALED st \<longrightarrow> exitstatus p' = Some st"
    "clock w' = max (clock w) te" "alarm w' = alarm w" "sigalrm w' = sigalrm w"
    "if exited_before (clock w + g) c2
      then exit_at c2 = Some (te, st) \<and> te < clock w + g \<and>
           oslog w' = oslog w @ [(clock w, Kill (cpid (child p)) SIGTERM),
                                 (clock w, Waitpid (cpid (child p)) 0 (Some (clock w + g)))]
      else exit_at (signal_child SIGKILL (clock w + g) c2) = Some (te, st) \<and>
           te = clock w + g \<and>
           oslog w' = oslog w @ [(clock w, Kill (cpid (child p)) SIGTERM),
                                 (clock w, Waitpid (cpid (child p)) 0 (Some (clock w + g))),
                                 (clock w + g, Kill (cpid (child p)) SIGKILL),
                                 (clock w + g, Waitpid (cpid (child p)) 0 (alarm w))]"
    by (elim exE conjE) (rule that, assumption+)
  have t: "terminate g (p, w) = Some (Ret (Some st), p', w')"
    using False s(1) by (simp add: terminate_def)
  have se: "staged_exit g False (clock w) (child p) = Some (te, st)"
    using s(8) by (simp add: staged_exit_def Let_def c2_def split: if_splits)
  have l: "if te < clock w + g
      then oslog w' = oslog w @ [(clock w, Kill (cpid (child p)) SIGTERM),
                                 (clock w, Waitpid (cpid (child p)) 0 (Some (clock w + g)))]
      else te = clock w + g \<and>
           oslog w' = oslog w @ [(clock w, Kill (cpid (child p)) SIGTERM),
                                 (clock w, Waitpid (cpid (child p)) 0 (Some (clock w + g))),
                                 (clock w + g, Kill (cpid (child p)) SIGKILL),
                                 (clock w + g, Waitpid (cpid (child p)) 0 (alarm w))]"
    using s(8) by (simp split: if_splits)
  from t s(2-7) se l False show ?thesis
    by (intro exI [of _ st] exI [of _ te] exI [of _ p'] exI [of _ w'])
       (simp add: Let_def split: if_splits)
next
  case True
  have g: "0 < g" using assms(1) by simp
  define p1 where "p1 = closeinput p"
  have p1: "exitstatus p1 = None" "\<not> reaped (child p1)" "cpid (child p1) \<noteq> 0"
      "cpid (child p1) = cpid (child p)" "quit p1"
      "has_stdout p1 \<or> has_stderr p1 \<longrightarrow> eof_delay (child p1) = Some 0"
    using assms by (simp_all add: p1_def closeinput_def)
  define pb where "pb = fst (background (p1, w))"
  define c1 where "c1 = child pb"
  define w1 where "w1 = w\<lparr>classes := classes w + 1,
       oslog := oslog w @ [(clock w, Waitpid (cpid (child p1)) 0 (Some (clock w + g)))]\<rparr>"
  have pb: "exitstatus pb = None" "\<not> reaped (child pb)" "cpid (child pb) = cpid (child p)"
      "quit pb" "\<not> has_stdin pb \<or> \<not> feeder_alive pb \<or> inputsem pb = 0"
      "has_stdout pb \<or> has_stderr pb \<longrightarrow> eof_delay (child pb) = Some 0"
    using p1 background_keeps [of p1 w] background_cpid [of p1 w] background_quiescent [of p1 w]
    by (simp_all add: pb_def program_def)
  have w1: "alarm w1 = alarm w" "sigalrm w1 = sigalrm w"
      "oslog w1 = oslog w @ [(clock w, Waitpid (cpid (child p)) 0 (Some (clock w + g)))]"
    by (simp_all add: w1_def p1(4))
  have far0: "\<forall>a. alarm w = Some a \<longrightarrow> clock w < a"
    using assms(6) by simp
  have H: "\<forall>a te st. alarm w = Some a \<longrightarrow>
      staged_exit g True (clock w) c1 = Some (te, st) \<longrightarrow> te < a"
    using assms(6) True by (simp add: c1_def pb_def p1_def)
  have staged_late: "\<exists>te st. staged_exit g True (clock w) c1 = Some (te, st) \<and> clock w + g \<le> te"
    if late: "\<forall>te st. exit_at c1 = Some (te, st) \<longrightarrow> clock w + g \<le> te"
  proof -
    define c2 where "c2 = signal_child SIGTERM (clock w + g) c1"
    have n1: "\<not> exited_before (clock w + g) c1"
      using late by (cases "exit_at c1") (auto simp add: exited_before_def)
    have lo2: "\<forall>te st. exit_at c2 = Some (te, st) \<longrightarrow> clock w + g \<le> te"
      unfolding c2_def using late by (blast dest: signal_child_lower)
    show ?thesis
    proof (cases "exited_before (clock w + g + g) c2")
      case True
      then obtain te st where x: "exit_at c2 = Some (te, st)"
        by (cases "exit_at c2") (auto simp add: exited_before_def)
      have "staged_exit g True (clock w) c1 = Some (te, st)"
        using n1 True x by (simp add: staged_exit_def Let_def c2_def)
      with lo2 x show ?thesis by blast
    next
      case False
      then have "\<forall>te st. exit_at c2 = Some (te, st) \<longrightarrow> clock w + g + g \<le> te"
        by (cases "exit_at c2") (auto simp add: exited_before_def)
      from sigkill_exits_now [OF this]
      obtain st where "exit_at (signal_child SIGKILL (clock w + g + g) c2) = Some (clock w + g + g, st)" ..
      then have "staged_exit g True (clock w) c1 = Some (clock w + g + g, st)"
        using n1 False by (simp add: staged_exit_def Let_def c2_def)
      then show ?thesis by auto
    qed
  qed
  have far1: "\<forall>a te st. alarm w = Some a \<longrightarrow>
      exit_at (child (fst (background (p1, w)))) = Some (te, st) \<longrightarrow>
      te < clock w + g \<longrightarrow> te < a"
  proof (intro allI impI)
    fix a te st
    assume al: "alarm w = Some a"
      and x: "exit_at (child (fst (background (p1, w)))) = Some (te, st)"
      and lt: "te < clock w + g"
    have "staged_exit g True (clock w) c1 = Some (te, st)"
      using x lt by (simp add: staged_exit_def Let_def exited_before_def c1_def pb_def)
    with H al show "te < a" by blast
  qed
  have far2: "\<forall>a. alarm w = Some a \<longrightarrow>
      (\<forall>te st. exit_at (child (fst (background (p1, w)))) = Some (te, st) \<longrightarrow>
         clock w + g \<le> te) \<longrightarrow>
      clock w + g < a"
  proof (intro allI impI)
    fix a
    assume al: "alarm w = Some a"
      and late: "\<forall>te st. exit_at (child (fst (background (p1, w)))) = Some (te, st) \<longrightarrow>
         clock w + g \<le> te"
    then have "\<forall>te st. exit_at c1 = Some (te, st) \<longrightarrow> clock w + g \<le> te"
      by (simp add: c1_def pb_def)
    from staged_late [OF this]
    obtain te st where "staged_exit g True (clock w) c1 = Some (te, st)" "clock w + g \<le> te"
      by blast
    with H al show "clock w + g < a" by fastforce
  qed
  note gw = guarded_wait [OF g p1(1) p1(2) p1(3) p1(6) far0 far1 far2, folded pb_def w1_def]
  have unfold: "terminate g (p, w) =
      (case with_timeout g (wait 0) (p1, w) of
           None \<Rightarrow> None
         | Some (r, s2) \<Rightarrow> if is_Timeout r then terminate_sigterm g s2 else Some (r, s2))"
    using True by (simp add: terminate_def p1_def)
  have pin: "feeder_alive p \<and> length (pending_input p) \<le> inputsem p \<longrightarrow>
      exit_at c1 = exit_at (react (on_eof (child p)) (clock w) (child p))"
    unfolding c1_def pb_def p1_def using True by (simp add: closeinput_reaches_child)
  have c1: "child (fst (background (closeinput p, w))) = c1"
    by (simp add: c1_def pb_def p1_def)
  have timed_out: ?thesis
    if late: "\<forall>te st. exit_at c1 = Some (te, st) \<longrightarrow> clock w + g \<le> te"
      and res: "with_timeout g (wait 0) (p1, w) = Some (Exc (Timeout g), pb, w1\<lparr>clock := clock w + g\<rparr>)"
  proof -
    define v where "v = w1\<lparr>clock := clock w + g\<rparr>"
    define c2 where "c2 = signal_child SIGTERM (clock w + g) c1"
    have v: "clock v = clock w + g" "alarm v = alarm w" "sigalrm v = sigalrm w"
        "oslog v = oslog w @ [(clock w, Waitpid (cpid (child p)) 0 (Some (clock w + g)))]"
      using w1 by (simp_all add: v_def)
    have n1: "\<not> exited_before (clock w + g) c1"
      using late by (cases "exit_at c1") (auto simp add: exited_before_def)
    have fv0: "\<forall>a. alarm v = Some a \<longrightarrow> clock v < a"
    proof (intro allI impI)
      fix a assume "alarm v = Some a"
      then have al: "alarm w = Some a" by (simp add: v)
      from staged_late [OF late]
      obtain te st where "staged_exit g True (clock w) c1 = Some (te, st)" "clock w + g \<le> te"
        by blast
      with H al show "clock v < a" unfolding v by fastforce
    qed
    have fv1: "\<forall>a te st. alarm v = Some a \<longrightarrow>
        exit_at (signal_child SIGTERM (clock v) (child pb)) = Some (te, st) \<longrightarrow>
        te < clock v + g \<longrightarrow> te < a"
    proof (intro allI impI)
      fix a te st
      assume "alarm v = Some a"
        and x: "exit_at (signal_child SIGTERM (clock v) (child pb)) = Some (te, st)"
        and lt: "te < clock v + g"
      then have al: "alarm w = Some a" by (simp add: v)
      have "staged_exit g True (clock w) c1 = Some (te, st)"
        using x lt n1 by (simp add: staged_exit_def Let_def exited_before_def v c1_def)
      with H al show "te < a" by blast
    qed
    have fv2: "\<forall>a. alarm v = Some a \<longrightarrow>
        \<not> exited_before (clock v + g) (signal_child SIGTERM (clock v) (child pb)) \<longrightarrow>
        clock v + g < a"
    proof (intro allI impI)
      fix a
      assume "alarm v = Some a"
        and n: "\<not> exited_before (clock v + g) (signal_child SIGTERM (clock v) (child pb))"
      then have al: "alarm w = Some a" by (simp add: v)
      have n2: "\<not> exited_before (clock w + g + g) c2"
        using n by (simp add: v c2_def c1_def)
      then have "\<forall>te st. exit_at c2 = Some (te, st) \<longrightarrow> clock w + g + g \<le> te"
        by (cases "exit_at c2") (auto simp add: exited_before_def)
      from sigkill_exits_now [OF this]
      obtain st where "exit_at (signal_child SIGKILL (clock w + g + g) c2) = Some (clock w + g + g, st)" ..
      then have "staged_exit g True (clock w) c1 = Some (clock w + g + g, st)"
        using n1 n2 by (simp add: staged_exit_def Let_def c2_def)
      with H al show "clock v + g < a" unfolding v by blast
    qed
    have pv: "cpid (child pb) \<noteq> 0" using pb(3) assms(4) by simp
    from stage_sigterm [OF g pb(1) pb(2) pv pb(6) pb(5) fv0 fv1 fv2]
    obtain st te p' w' where s:
      "terminate_sigterm g (pb, v) = Some (Ret (Some st), p', w')"
      "exit_at (child p') = Some (te, st)" "reaped (child p')"
      "WIFEXITED st \<or> WIFSIGNALED st \<longrightarrow> exitstatus p' = Some st"
      "quit pb \<longrightarrow> quit p'"
      "clock w' = max (clock v) te" "alarm w' = alarm v" "sigalrm w' = sigalrm v"
      "if exited_before (clock v + g) (signal_child SIGTERM (clock v) (child pb))
        then exit_at (signal_child SIGTERM (clock v) (child pb)) = Some (te, st) \<and>
             te < clock v + g \<and>
             oslog w' = oslog v @ [(clock v, Kill (cpid (child pb)) SIGTERM),
                                   (clock v, Waitpid (cpid (child pb)) 0 (Some (clock v + g)))]
        else exit_at (signal_child SIGKILL (clock v + g)
                        (signal_child SIGTERM (clock v) (child pb))) = Some (te, st) \<and>
             te = clock v + g \<and>
             oslog w' = oslog v @ [(clock v, Kill (cpid (child pb)) SIGTERM),
                                   (clock v, Waitpid (cpid (child pb)) 0 (Some (clock v + g))),
                                   (clock v + g, Kill (cpid (child pb)) SIGKILL),
                                   (clock v + g, Waitpid (cpid (child pb)) 0 (alarm v))]"
      by (elim exE conjE) (rule that, assumption+)
    have t: "terminate g (p, w) = Some (Ret (Some st), p', w')"
      unfolding unfold res using s(1) by (simp add: is_Timeout_def v_def)
    have s9: "if exited_before (clock w + g + g) c2
        then exit_at c2 = Some (te, st) \<and> te < clock w + g + g \<and>
             oslog w' = oslog w @ [(clock w, Waitpid (cpid (child p)) 0 (Some (clock w + g))),
                                   (clock w + g, Kill (cpid (child p)) SIGTERM),
                                   (clock w + g, Waitpid (cpid (child p)) 0 (Some (clock w + g + g)))]
        else exit_at (signal_child SIGKILL (clock w + g + g) c2) = Some (te, st) \<and>
             te = clock w + g + g \<and>
             oslog w' = oslog w @ [(clock w, Waitpid (cpid (child p)) 0 (Some (clock w + g))),
                                   (clock w + g, Kill (cpid (child p)) SIGTERM),
                                   (clock w + g, Waitpid (cpid (child p)) 0 (Some (clock w + g + g))),
                                   (clock w + g + g, Kill (cpid (child p)) SIGKILL),
                                   (clock w + g + g, Waitpid (cpid (child p)) 0 (alarm w))]"
    proof -
      have cp: "cpid c1 = cpid (child p)" using pb(3) by (simp add: c1_def)
      show ?thesis
        using s(9) unfolding v c1_def [symmetric] c2_def [symmetric] cp by simp
    qed
    have lo: "clock w + g \<le> te"
    proof (cases "exited_before (clock w + g + g) c2")
      case True
      then have "exit_at (signal_child SIGTERM (clock w + g) c1) = Some (te, st)"
        using s9 by (simp add: c2_def)
      with late show ?thesis by (rule signal_child_lower)
    next
      case False
      then show ?thesis using s9 by simp
    qed
    have se: "staged_exit g True (clock w) c1 = Some (te, st)"
      using s9 n1 by (simp add: staged_exit_def Let_def c2_def split: if_splits)
    have c: "clock w' = max (clock w) te"
      using s(6) lo v(1) by simp
    have a: "alarm w' = alarm w" using s(7) v(2) by simp
    have h: "sigalrm w' = sigalrm w" using s(8) v(3) by simp
    have q: "has_stdin p \<longrightarrow> quit p'"
      using s(5) pb(4) by simp
    have l: "if te < clock w + g + g
        then oslog w' = oslog w @ [(clock w, Waitpid (cpid (child p)) 0 (Some (clock w + g))),
                                 (clock w + g, Kill (cpid (child p)) SIGTERM),
                                 (clock w + g, Waitpid (cpid (child p)) 0 (Some (clock w + g + g)))]
        else te = clock w + g + g \<and>
           oslog w' = oslog w @ [(clock w, Waitpid (cpid (child p)) 0 (Some (clock w + g))),
                                 (clock w + g, Kill (cpid (child p)) SIGTERM),
                                 (clock w + g, Waitpid (cpid (child p)) 0 (Some (clock w + g + g))),
                                 (clock w + g + g, Kill (cpid (child p)) SIGKILL),
                                 (clock w + g + g, Waitpid (cpid (child p)) 0 (alarm w))]"
      using s9 by (simp split: if_splits)
    from t s(2) s(3) s(4) q c a h se pin l lo True show ?thesis
      by (intro exI [of _ st] exI [of _ te] exI [of _ p'] exI [of _ w'])
         (simp add: Let_def c1 split: if_splits)
  qed
  show ?thesis
  proof (cases "exit_at c1")
    case None
    have res: "with_timeout g (wait 0) (p1, w) = Some (Exc (Timeout g), pb, w1\<lparr>clock := clock w + g\<rparr>)"
      unfolding gw using None by (simp add: Let_def c1_def)
    have "\<forall>te st. exit_at c1 = Some (te, st) \<longrightarrow> clock w + g \<le> te"
      using None by simp
    from timed_out [OF this res] show ?thesis .
  next
    case (Some ts)
    obtain te st where ts: "ts = (te, st)" by (cases ts)
    show ?thesis
    proof (cases "te < clock w + g")
      case False
      have res: "with_timeout g (wait 0) (p1, w) = Some (Exc (Timeout g), pb, w1\<lparr>clock := clock w + g\<rparr>)"
        unfolding gw using Some ts False by (simp add: Let_def c1_def)
      have "\<forall>te st. exit_at c1 = Some (te, st) \<longrightarrow> clock w + g \<le> te"
        using Some ts False by simp
      from timed_out [OF this res] show ?thesis .
    next
      case in_time: True
      define p' where "p' = wait_done st (pb\<lparr>child := (child pb)\<lparr>reaped := True\<rparr>\<rparr>)"
      define w' where "w' = w1\<lparr>clock := max (clock w) te\<rparr>"
      have res: "with_timeout g (wait 0) (p1, w) = Some (Ret (Some st), p', w')"
        unfolding gw using Some ts in_time by (simp add: Let_def p'_def w'_def c1_def)
      have t: "terminate g (p, w) = Some (Ret (Some st), p', w')"
        unfolding unfold res by (simp add: is_Timeout_def)
      have x: "exit_at (child p') = Some (te, st)" "reaped (child p')"
        using Some ts by (simp_all add: p'_def wait_done_keeps c1_def)
      have c: "WIFEXITED st \<or> WIFSIGNALED st \<longrightarrow> exitstatus p' = Some st"
        by (simp add: p'_def wait_done_caches)
      have q: "has_stdin p \<longrightarrow> quit p'"
        using pb(4) by (auto simp add: p'_def intro: wait_done_quit)
      have ww: "clock w' = max (clock w) te" "alarm w' = alarm w" "sigalrm w' = sigalrm w"
          "oslog w' = oslog w @ [(clock w, Waitpid (cpid (child p)) 0 (Some (clock w + g)))]"
        using w1 by (simp_all add: w'_def)
      have se: "staged_exit g True (clock w) c1 = Some (te, st)"
        using Some ts in_time by (simp add: staged_exit_def Let_def exited_before_def)
      from t x c q ww se pin in_time True show ?thesis
        by (intro exI [of _ st] exI [of _ te] exI [of _ p'] exI [of _ w'])
           (simp add: Let_def c1)
    qed
  qed
qed

theorem terminate_escalates_witness:
  "(1::nat) \<le> 1 \<and> exitstatus p_ex = None \<and> \<not> reaped (child p_ex) \<and>
   cpid (child p_ex) \<noteq> 0 \<and> eof_delay (child p_ex) = Some 0 \<and> alarm w_ex = None \<and>
   (\<exists>p' w'. terminate 1 (p_ex, w_ex) = Some (Ret (Some 9), p', w') \<and>
      exit_at (child p') = Some (102, 9) \<and> exitstatus p' = Some 9 \<and> clock w' = 102 \<and>
      oslog w' = [(100, Waitpid 4242 0 (Some 101)),
                  (101, Kill 4242 15), (101, Waitpid 4242 0 (Some 102)),
                  (102, Kill 4242 9), (102, Waitpid 4242 0 None)]) \<and>
   alarm (w_ex\<lparr>alarm := Some 101, sigalrm := Handler (SigAlarm 7)\<rparr>) = Some 101 \<and>
   clock (w_ex\<lparr>alarm := Some 101, sigalrm := Handler (SigAlarm 7)\<rparr>) < 101 \<and>
   staged_exit 1 True 100
     (child (fst (background
        (closeinput (Process_init True True True (c_ex\<lparr>on_eof := Exits_after 0 0\<rparr>)),
         w_ex\<lparr>alarm := Some 101, sigalrm := Handler (SigAlarm 7)\<rparr>)))) = Some (100, 0) \<and>
   (100::nat) < 101 \<and>
   (\<exists>p' w'. terminate 1 (Process_init True True True (c_ex\<lparr>on_eof := Exits_after 0 0\<rparr>),
                          w_ex\<lparr>alarm := Some 101, sigalrm := Handler (SigAlarm 7)\<rparr>) =
               Some (Ret (Some 0), p', w') \<and>
      exit_at (child p') = Some (100, 0) \<and> exitstatus p' = Some 0 \<and> clock w' = 100 \<and>
      alarm w' = Some 101 \<and> sigalrm w' = Handler (SigAlarm 7) \<and>
      oslog w' = [(100, Waitpid 4242 0 (Some 101))])"
proof -
  have h: "(1::nat) \<le> 1" "exitstatus p_ex = None" "\<not> reaped (child p_ex)"
      "cpid (child p_ex) \<noteq> 0"
      "has_stdout p_ex \<or> has_stderr p_ex \<longrightarrow> eof_delay (child p_ex) = Some 0"
      "\<forall>a. alarm w_ex = Some a \<longrightarrow>
             clock w_ex < a \<and>
             (\<forall>te st. staged_exit 1 (has_stdin p_ex) (clock w_ex)
                        (if has_stdin p_ex then child (fst (background (closeinput p_ex, w_ex)))
                         else child p_ex) = Some (te, st) \<longrightarrow>
                      te < a)"
    by (simp_all add: p_ex_def c_ex_def w_ex_def Process_init_def)
  have v: "has_stdin p_ex" "cpid (child p_ex) = 4242" "clock w_ex = 100" "oslog w_ex = []"
      "alarm w_ex = None"
    by (simp_all add: p_ex_def c_ex_def w_ex_def Process_init_def)
  from terminate_escalates [OF h]
  obtain st te p' w' where t: "terminate 1 (p_ex, w_ex) = Some (Ret (Some st), p', w')"
    and x: "exit_at (child p') = Some (te, st)"
    and c: "WIFEXITED st \<or> WIFSIGNALED st \<longrightarrow> exitstatus p' = Some st"
    and k: "clock w' = max (clock w_ex) te"
    and l: "let t0 = clock w_ex; pid = cpid (child p_ex);
          c1 = (if has_stdin p_ex then child (fst (background (closeinput p_ex, w_ex)))
                else child p_ex);
          t1 = (if has_stdin p_ex then t0 + 1 else t0);
          t2 = t1 + 1;
          stage1 = (if has_stdin p_ex then [(t0, Waitpid pid 0 (Some t1))] else []);
          stage2 = [(t1, Kill pid SIGTERM), (t1, Waitpid pid 0 (Some t2))];
          stage3 = [(t2, Kill pid SIGKILL), (t2, Waitpid pid 0 (alarm w_ex))]
      in t2 \<le> t0 + 2 * 1 \<and>
         staged_exit 1 (has_stdin p_ex) t0 c1 = Some (te, st) \<and>
         (has_stdin p_ex \<and> feeder_alive p_ex \<and> length (pending_input p_ex) \<le> inputsem p_ex \<longrightarrow>
            exit_at c1 = exit_at (react (on_eof (child p_ex)) t0 (child p_ex))) \<and>
         (if has_stdin p_ex \<and> te < t1 then oslog w' = oslog w_ex @ stage1
          else if te < t2 then oslog w' = oslog w_ex @ stage1 @ stage2
          else te = t2 \<and> oslog w' = oslog w_ex @ stage1 @ stage2 @ stage3)"
    by (elim exE conjE) (rule that, assumption+)
  have "case terminate 1 (p_ex, w_ex) of
          Some (Ret (Some s), q, u) \<Rightarrow> s = 9 \<and> exit_at (child q) = Some (102, 9)
        | _ \<Rightarrow> False"
    by code_simp
  then have st: "st = 9" and te: "te = 102"
    using t x by simp_all
  have log: "oslog w' = [(100, Waitpid 4242 0 (Some 101)),
                  (101, Kill 4242 15), (101, Waitpid 4242 0 (Some 102)),
                  (102, Kill 4242 9), (102, Waitpid 4242 0 None)]"
    using l v by (simp add: te Let_def SIGTERM_def SIGKILL_def)
  have cached: "exitstatus p' = Some 9"
    using c unfolding st by (simp add: WIFSIGNALED_def)
  have clk: "clock w' = 102"
    using k v by (simp add: te)
  have first: "\<exists>p' w'. terminate 1 (p_ex, w_ex) = Some (Ret (Some 9), p', w') \<and>
      exit_at (child p') = Some (102, 9) \<and> exitstatus p' = Some 9 \<and> clock w' = 102 \<and>
      oslog w' = [(100, Waitpid 4242 0 (Some 101)),
                  (101, Kill 4242 15), (101, Waitpid 4242 0 (Some 102)),
                  (102, Kill 4242 9), (102, Waitpid 4242 0 None)]"
    using t x log cached clk unfolding st te
    by (intro exI [of _ p'] exI [of _ w']) simp
  let ?p = "Process_init True True True (c_ex\<lparr>on_eof := Exits_after 0 0\<rparr>)"
  let ?w = "w_ex\<lparr>alarm := Some 101, sigalrm := Handler (SigAlarm 7)\<rparr>"
  have v2: "has_stdin ?p" "cpid (child ?p) = 4242" "clock ?w = 100" "oslog ?w = []"
      "alarm ?w = Some 101" "sigalrm ?w = Handler (SigAlarm 7)"
      "feeder_alive ?p" "length (pending_input ?p) \<le> inputsem ?p"
      "exit_at (react (on_eof (child ?p)) 100 (child ?p)) = Some (100, 0)"
    by (simp_all add: c_ex_def w_ex_def Process_init_def react_def)
  define c1 where "c1 = child (fst (background (closeinput ?p, ?w)))"
  have x1: "exit_at c1 = Some (100, 0)"
    unfolding c1_def using closeinput_reaches_child [OF v2(1) v2(7) v2(8), of ?w] v2(3,9)
    by simp
  have s1: "staged_exit 1 True 100 c1 = Some (100, 0)"
    using x1 by (simp add: staged_exit_def Let_def exited_before_def)
  have h2: "(1::nat) \<le> 1" "exitstatus ?p = None" "\<not> reaped (child ?p)"
      "cpid (child ?p) \<noteq> 0"
      "has_stdout ?p \<or> has_stderr ?p \<longrightarrow> eof_delay (child ?p) = Some 0"
    by (simp_all add: c_ex_def w_ex_def Process_init_def)
  have h26: "\<forall>a. alarm ?w = Some a \<longrightarrow>
             clock ?w < a \<and>
             (\<forall>te st. staged_exit 1 (has_stdin ?p) (clock ?w)
                        (if has_stdin ?p then child (fst (background (closeinput ?p, ?w)))
                         else child ?p) = Some (te, st) \<longrightarrow>
                      te < a)"
    unfolding c1_def [symmetric] using s1 by (simp add: v2)
  from terminate_escalates [OF h2 h26]
  obtain st2 te2 q' u' where t2: "terminate 1 (?p, ?w) = Some (Ret (Some st2), q', u')"
    and x2: "exit_at (child q') = Some (te2, st2)"
    and c2: "WIFEXITED st2 \<or> WIFSIGNALED st2 \<longrightarrow> exitstatus q' = Some st2"
    and k2: "clock u' = max (clock ?w) te2"
    and a2: "alarm u' = alarm ?w" and s2: "sigalrm u' = sigalrm ?w"
    and l2: "let t0 = clock ?w; pid = cpid (child ?p);
          c1 = (if has_stdin ?p then child (fst (background (closeinput ?p, ?w)))
                else child ?p);
          t1 = (if has_stdin ?p then t0 + 1 else t0);
          t2 = t1 + 1;
          stage1 = (if has_stdin ?p then [(t0, Waitpid pid 0 (Some t1))] else []);
          stage2 = [(t1, Kill pid SIGTERM), (t1, Waitpid pid 0 (Some t2))];
          stage3 = [(t2, Kill pid SIGKILL), (t2, Waitpid pid 0 (alarm ?w))]
      in t2 \<le> t0 + 2 * 1 \<and>
         staged_exit 1 (has_stdin ?p) t0 c1 = Some (te2, st2) \<and>
         (has_stdin ?p \<and> feeder_alive ?p \<and> length (pending_input ?p) \<le> inputsem ?p \<longrightarrow>
            exit_at c1 = exit_at (react (on_eof (child ?p)) t0 (child ?p))) \<and>
         (if has_stdin ?p \<and> te2 < t1 then oslog u' = oslog ?w @ stage1
          else if te2 < t2 then oslog u' = oslog ?w @ stage1 @ stage2
          else te2 = t2 \<and> oslog u' = oslog ?w @ stage1 @ stage2 @ stage3)"
    by (elim exE conjE) (rule that, assumption+)
  have b: "staged_exit 1 True 100 c1 = Some (te2, st2)"
      "exit_at c1 = Some (100, 0)"
    using l2 unfolding Let_def c1_def [symmetric] by (simp_all add: v2)
  have "staged_exit 1 True 100 c1 = Some (100, 0)"
    using b(2) by (simp add: staged_exit_def Let_def exited_before_def)
  then have e2: "te2 = 100" "st2 = 0"
    using b(1) by simp_all
  have log2: "oslog u' = [(100, Waitpid 4242 0 (Some 101))]"
    using l2 v2(1-4) by (simp add: e2 Let_def)
  have cached2: "exitstatus q' = Some 0"
    using c2 unfolding e2 by (simp add: WIFEXITED_def)
  have second: "\<exists>p' w'. terminate 1 (?p, ?w) = Some (Ret (Some 0), p', w') \<and>
      exit_at (child p') = Some (100, 0) \<and> exitstatus p' = Some 0 \<and> clock w' = 100 \<and>
      alarm w' = Some 101 \<and> sigalrm w' = Handler (SigAlarm 7) \<and>
      oslog w' = [(100, Waitpid 4242 0 (Some 101))]"
    using t2 x2 log2 cached2 k2 a2 s2 v2(3,5,6) unfolding e2
    by (intro exI [of _ q'] exI [of _ u']) simp
  have hs: "eof_delay (child p_ex) = Some 0" "alarm w_ex = None"
      "alarm ?w = Some 101" "clock ?w < 101"
    by (simp_all add: p_ex_def c_ex_def w_ex_def Process_init_def)
  have s101: "(100::nat) < 101" by simp
  from h(1-4) hs s1 [unfolded c1_def] s101 first second show ?thesis
    by (intro conjI)
qed


end
